theory Spec2Isabelle
  imports Main "HOL-Library.Char_ord" "HOL-Library.List_Lexorder"
begin

section \<open>The package publisher script, \<^verbatim>\<open>scripts/publish-packages.py\<close>\<close>

text \<open>
  The script is a sequence of effects: it prints, spawns external commands, lists a
  directory and opens archives. The model threads an explicit state through every
  source statement. The state holds the outside world (an abstract type \<open>'w\<close>), the
  registry \<open>results\<close> and a trace of the effects performed so far, oldest first.
  What the operating system and the external tools do is a parameter (\<open>'w os\<close>), so
  every theorem holds for every behaviour of \<^verbatim>\<open>dotnet\<close> and of the file system.
  \<^verbatim>\<open>sys.exit\<close> and an uncaught exception are values of the result type.

  What the model takes as given: the command line is already parsed (\<open>main\<close> receives
  the record \<open>args\<close> that \<^verbatim>\<open>argparse\<close> returns, an absent option being \<open>None\<close>); strings
  are lists of 8-bit characters; paths are those of \<^verbatim>\<open>pathlib\<close> on POSIX, where matching a
  glob pattern is case sensitive; the list of packages is a parameter of \<open>main\<close>, and
  \<open>script\<close> is \<open>main\<close> at the list \<open>PACKAGES\<close> of the source.
\<close>

subsection \<open>Strings\<close>

text \<open>\<^verbatim>\<open>s.startswith(p)\<close>\<close>

fun startswith :: "string \<Rightarrow> string \<Rightarrow> bool" where
  "startswith s [] = True"
| "startswith [] (p # ps) = False"
| "startswith (c # cs) (p # ps) = (c = p \<and> startswith cs ps)"

text \<open>\<^verbatim>\<open>sub in s\<close>\<close>

fun contains :: "string \<Rightarrow> string \<Rightarrow> bool" where
  "contains sub [] = (sub = [])"
| "contains sub (c # cs) = (startswith (c # cs) sub \<or> contains sub cs)"

text \<open>\<^verbatim>\<open>sep.join(xs)\<close>\<close>

fun join :: "string \<Rightarrow> string list \<Rightarrow> string" where
  "join sep [] = []"
| "join sep [x] = x"
| "join sep (x # y # ys) = x @ sep @ join sep (y # ys)"

text \<open>\<^verbatim>\<open>s.split(c)\<close> for a one-character separator.\<close>

fun split_on :: "string \<Rightarrow> char \<Rightarrow> string list" where
  "split_on [] c = [[]]"
| "split_on (x # xs) c =
     (if x = c then [] # split_on xs c
      else (case split_on xs c of [] \<Rightarrow> [[x]] | h # t \<Rightarrow> (x # h) # t))"

text \<open>\<^verbatim>\<open>s.rfind(c)\<close>, with \<open>None\<close> for Python's \<open>-1\<close>.\<close>

fun rfind :: "string \<Rightarrow> char \<Rightarrow> nat option" where
  "rfind [] c = None"
| "rfind (x # xs) c =
     (case rfind xs c of
        Some i \<Rightarrow> Some (Suc i)
      | None \<Rightarrow> if x = c then Some 0 else None)"

text \<open>
  \<^verbatim>\<open>s.strip()\<close>: the ASCII characters for which \<^verbatim>\<open>str.isspace\<close> holds are removed
  from both ends (tab, line feed, vertical tab, form feed, carriage return, the four
  separators \<open>0x1C\<close> to \<open>0x1F\<close>, and the space).
\<close>

definition isspace :: "char \<Rightarrow> bool" where
  "isspace c = (c \<in> set [CHR 0x09, CHR 0x0A, CHR 0x0B, CHR 0x0C, CHR 0x0D,
                         CHR 0x1C, CHR 0x1D, CHR 0x1E, CHR 0x1F, CHR 0x20])"

definition strip :: "string \<Rightarrow> string" where
  "strip s = rev (dropWhile isspace (rev (dropWhile isspace s)))"

text \<open>\<^verbatim>\<open>str(n)\<close> for a length.\<close>

fun str_nat :: "nat \<Rightarrow> string" where
  "str_nat n =
     (if n < 10 then [''0123456789'' ! n]
      else str_nat (n div 10) @ [''0123456789'' ! (n mod 10)])"

declare str_nat.simps [simp del]

text \<open>The format specifications \<^verbatim>\<open>{s:<w}\<close> and \<^verbatim>\<open>{s:>w}\<close>: padding, never truncation.\<close>

definition ljust :: "nat \<Rightarrow> string \<Rightarrow> string" where
  "ljust w s = s @ replicate (w - length s) CHR '' ''"

definition rjust :: "nat \<Rightarrow> string \<Rightarrow> string" where
  "rjust w s = replicate (w - length s) CHR '' '' @ s"

subsection \<open>Paths (\<^verbatim>\<open>pathlib\<close>, POSIX flavour)\<close>

record ppath =
  anchor :: string
  parts :: "string list"

definition PurePosixPath :: "string \<Rightarrow> ppath" where
  "PurePosixPath s =
     \<lparr>anchor = (if startswith s ''/''
                then (if startswith s ''//'' \<and> \<not> startswith s ''///'' then ''//'' else ''/'')
                else []),
      parts = filter (\<lambda>x. x \<noteq> [] \<and> x \<noteq> ''.'') (split_on s CHR ''/'')\<rparr>"

text \<open>\<^verbatim>\<open>p / s\<close>\<close>

definition truediv :: "ppath \<Rightarrow> string \<Rightarrow> ppath" where
  "truediv p s =
     (let q = PurePosixPath s
      in if anchor q \<noteq> [] then q else \<lparr>anchor = anchor p, parts = parts p @ parts q\<rparr>)"

text \<open>The path of a directory entry \<open>n\<close> of \<open>p\<close>, as \<^verbatim>\<open>glob\<close> builds it.\<close>

definition make_child :: "ppath \<Rightarrow> string \<Rightarrow> ppath" where
  "make_child p n = \<lparr>anchor = anchor p, parts = parts p @ [n]\<rparr>"

text \<open>\<^verbatim>\<open>str(p)\<close>\<close>

definition str_path :: "ppath \<Rightarrow> string" where
  "str_path p =
     (if anchor p = [] \<and> parts p = [] then ''.'' else anchor p @ join ''/'' (parts p))"

text \<open>\<^verbatim>\<open>p.name\<close>\<close>

definition path_name :: "ppath \<Rightarrow> string" where
  "path_name p = (if parts p = [] then [] else last (parts p))"

text \<open>\<^verbatim>\<open>p.stem\<close>: the name without its last suffix.\<close>

definition stem :: "ppath \<Rightarrow> string" where
  "stem p =
     (let nm = path_name p
      in case rfind nm CHR ''.'' of
           None \<Rightarrow> nm
         | Some i \<Rightarrow> if 0 < i \<and> i < length nm - 1 then take i nm else nm)"

text \<open>
  The key by which \<^verbatim>\<open>sorted\<close> compares two paths: the anchor, then the components,
  each compared as a string.
\<close>

definition cparts :: "ppath \<Rightarrow> string list" where
  "cparts p = anchor p # parts p"

text \<open>\<^verbatim>\<open>fnmatch(name, pat)\<close> for patterns made of \<^verbatim>\<open>*\<close> and literal characters.\<close>

fun fnmatch :: "string \<Rightarrow> string \<Rightarrow> bool" where
  "fnmatch [] [] = True"
| "fnmatch (c # cs) [] = False"
| "fnmatch [] (p # ps) = (p = CHR ''*'' \<and> fnmatch [] ps)"
| "fnmatch (c # cs) (p # ps) =
     (if p = CHR ''*'' then fnmatch (c # cs) ps \<or> fnmatch cs (p # ps)
      else c = p \<and> fnmatch cs ps)"

subsection \<open>Data of the script\<close>

datatype pyexn = OSError | BadZipFile

datatype 'a res = Return 'a | SysExit int | Raise pyexn

text \<open>The argument \<^verbatim>\<open>cmd\<close> of \<^verbatim>\<open>run\<close>: a string for the shell, or an argument list.\<close>

datatype command = Str string | Argv "string list"

text \<open>\<^verbatim>\<open>subprocess.CompletedProcess\<close>\<close>

record completed =
  returncode :: int
  stdout :: string
  stderr :: string

text \<open>One entry of \<^verbatim>\<open>results\<close>.\<close>

record artifact =
  name :: string
  packed :: bool
  signed :: bool
  published :: bool

text \<open>
  The parsed command line. An option that was not given is \<open>None\<close>; the script tests
  \<^verbatim>\<open>not args.cert_path\<close>, which also holds for the empty string.
\<close>

record args =
  version :: string
  api_key :: "string option"
  publish :: bool
  sign :: bool
  cert_path :: "string option"
  cert_password :: "string option"

definition falsy :: "string option \<Rightarrow> bool" where
  "falsy x = (case x of None \<Rightarrow> True | Some s \<Rightarrow> s = [])"

datatype event =
    Print string
  | Spawn command "pyexn + completed"
  | ZipOpen ppath "pyexn + string list"

record 'w state =
  world :: 'w
  trace :: "event list"
  results :: "artifact list"

text \<open>
  The environment. \<open>subprocess_run cmd shell cwd\<close> either raises (the program cannot
  be started) or completes with an exit code, and changes the world. \<open>iterdir\<close> lists
  the entry names of a directory, \<open>zip_namelist\<close> opens an archive and lists its
  entries, or raises.
\<close>

record 'w os =
  script_root :: ppath
  subprocess_run :: "command \<Rightarrow> bool \<Rightarrow> ppath option \<Rightarrow> 'w \<Rightarrow> (pyexn + completed) \<times> 'w"
  mkdir :: "ppath \<Rightarrow> 'w \<Rightarrow> pyexn option \<times> 'w"
  iterdir :: "ppath \<Rightarrow> 'w \<Rightarrow> string list"
  zip_namelist :: "ppath \<Rightarrow> 'w \<Rightarrow> pyexn + string list"

definition PACKAGES :: "string list" where
  "PACKAGES =
    [''src/core/WorkflowForge/WorkflowForge.csproj'',
     ''src/core/WorkflowForge.Testing/WorkflowForge.Testing.csproj'',
     ''src/extensions/WorkflowForge.Extensions.DependencyInjection/WorkflowForge.Extensions.DependencyInjection.csproj'',
     ''src/extensions/WorkflowForge.Extensions.Logging.Serilog/WorkflowForge.Extensions.Logging.Serilog.csproj'',
     ''src/extensions/WorkflowForge.Extensions.Resilience/WorkflowForge.Extensions.Resilience.csproj'',
     ''src/extensions/WorkflowForge.Extensions.Resilience.Polly/WorkflowForge.Extensions.Resilience.Polly.csproj'',
     ''src/extensions/WorkflowForge.Extensions.Validation/WorkflowForge.Extensions.Validation.csproj'',
     ''src/extensions/WorkflowForge.Extensions.Audit/WorkflowForge.Extensions.Audit.csproj'',
     ''src/extensions/WorkflowForge.Extensions.Persistence/WorkflowForge.Extensions.Persistence.csproj'',
     ''src/extensions/WorkflowForge.Extensions.Persistence.Recovery/WorkflowForge.Extensions.Persistence.Recovery.csproj'',
     ''src/extensions/WorkflowForge.Extensions.Observability.Performance/WorkflowForge.Extensions.Observability.Performance.csproj'',
     ''src/extensions/WorkflowForge.Extensions.Observability.HealthChecks/WorkflowForge.Extensions.Observability.HealthChecks.csproj'',
     ''src/extensions/WorkflowForge.Extensions.Observability.OpenTelemetry/WorkflowForge.Extensions.Observability.OpenTelemetry.csproj'']"

subsection \<open>Sequencing\<close>

text \<open>
  \<open>bind_res m f\<close> runs \<open>m\<close> and then \<open>f\<close>, unless \<open>m\<close> left through \<^verbatim>\<open>sys.exit\<close> or an
  exception: then nothing after it runs and the state is the one at that point.
\<close>

definition bind_res ::
  "('s \<Rightarrow> 'a res \<times> 's) \<Rightarrow> ('a \<Rightarrow> 's \<Rightarrow> 'b res \<times> 's) \<Rightarrow> 's \<Rightarrow> 'b res \<times> 's" where
  "bind_res m f s =
     (case m s of
        (Return x, s') \<Rightarrow> f x s'
      | (SysExit n, s') \<Rightarrow> (SysExit n, s')
      | (Raise e, s') \<Rightarrow> (Raise e, s'))"

definition print :: "string \<Rightarrow> 'w state \<Rightarrow> 'w state" where
  "print s st = st\<lparr>trace := trace st @ [Print s]\<rparr>"

definition glob :: "'w os \<Rightarrow> ppath \<Rightarrow> string \<Rightarrow> 'w \<Rightarrow> ppath list" where
  "glob os dir pat w = map (make_child dir) (filter (\<lambda>n. fnmatch n pat) (iterdir os dir w))"

text \<open>\<^verbatim>\<open>sorted\<close> on paths.\<close>

definition sorted_paths :: "ppath list \<Rightarrow> ppath list" where
  "sorted_paths ps = sort_key cparts ps"

subsection \<open>\<^verbatim>\<open>run\<close> (lines 30 to 37)\<close>

definition run :: "'w os \<Rightarrow> command \<Rightarrow> ppath option \<Rightarrow> bool \<Rightarrow> 'w state \<Rightarrow> completed res \<times> 'w state" where
  "run os cmd cwd check st =
     (let st1 = print (''  > '' @ (case cmd of Argv xs \<Rightarrow> join '' '' xs | Str s \<Rightarrow> s)) st;
          (out, w') = subprocess_run os cmd (case cmd of Str s \<Rightarrow> True | Argv xs \<Rightarrow> False)
                        cwd (world st1);
          st2 = st1\<lparr>world := w', trace := trace st1 @ [Spawn cmd out]\<rparr>
      in case out of
           Inl e \<Rightarrow> (Raise e, st2)
         | Inr result \<Rightarrow>
             if check \<and> returncode result \<noteq> 0
             then (SysExit 1, print (''  ERROR: '' @ strip (stderr result)) st2)
             else (Return result, st2))"

subsection \<open>\<^verbatim>\<open>main\<close> (lines 39 to 141)\<close>

definition banner :: "args \<Rightarrow> 'w state \<Rightarrow> 'w state" where
  "banner a st =
     print (replicate 60 CHR ''='' @ [CHR 0x0A])
       (print (''Sign: '' @ (if sign a then ''Yes'' else ''No''))
         (print (''Mode: '' @ (if publish a then ''PUBLISH'' else ''DRY RUN''))
           (print (''WorkflowForge Package Publisher v'' @ version a)
             (print (CHR 0x0A # replicate 60 CHR ''='') st))))"

text \<open>Step 1 (lines 60 and 61).\<close>

definition restore_cmd :: command where
  "restore_cmd = Argv [''dotnet'', ''restore'', ''WorkflowForge.sln'']"

definition step1_restore :: "'w os \<Rightarrow> ppath \<Rightarrow> 'w state \<Rightarrow> completed res \<times> 'w state" where
  "step1_restore os root st =
     run os restore_cmd (Some root) True (print ''[1/5] Restoring dependencies...'' st)"

text \<open>Step 2 (lines 64 and 65).\<close>

definition build_cmd :: command where
  "build_cmd = Argv [''dotnet'', ''build'', ''WorkflowForge.sln'', ''--configuration'', ''Release'',
                     ''--no-restore'']"

definition step2_build :: "'w os \<Rightarrow> ppath \<Rightarrow> 'w state \<Rightarrow> completed res \<times> 'w state" where
  "step2_build os root st =
     run os build_cmd (Some root) True (print (CHR 0x0A # ''[2/5] Building solution...'') st)"

text \<open>Step 3 (lines 68 to 81).\<close>

definition pack_cmd :: "args \<Rightarrow> ppath \<Rightarrow> ppath \<Rightarrow> string \<Rightarrow> command" where
  "pack_cmd a root output_dir project =
     Argv [''dotnet'', ''pack'', str_path (truediv root project),
           ''--configuration'', ''Release'',
           ''--no-build'',
           ''-p:PackageVersion='' @ version a,
           ''--output'', str_path output_dir]"

definition new_record :: "ppath \<Rightarrow> string \<Rightarrow> artifact" where
  "new_record root project =
     \<lparr>name = stem (truediv root project), packed = True, signed = False, published = False\<rparr>"

fun pack_loop ::
  "'w os \<Rightarrow> args \<Rightarrow> ppath \<Rightarrow> ppath \<Rightarrow> string list \<Rightarrow> 'w state \<Rightarrow> unit res \<times> 'w state" where
  "pack_loop os a root output_dir [] st = (Return (), st)"
| "pack_loop os a root output_dir (project # rest) st =
     bind_res
       (run os (pack_cmd a root output_dir project) (Some root) True)
       (\<lambda>r st2. pack_loop os a root output_dir rest
                  (st2\<lparr>results := results st2 @ [new_record root project]\<rparr>))
       (print (''  Packing '' @ stem (truediv root project) @ ''...'') st)"

definition step3_pack ::
  "'w os \<Rightarrow> args \<Rightarrow> ppath \<Rightarrow> ppath \<Rightarrow> string list \<Rightarrow> 'w state \<Rightarrow> unit res \<times> 'w state" where
  "step3_pack os a root output_dir PKGS st =
     pack_loop os a root output_dir PKGS
       ((print (CHR 0x0A # ''[3/5] Packing NuGet packages...'') st)\<lparr>results := []\<rparr>)"

text \<open>Step 4 (lines 84 to 89).\<close>

definition verify_line :: "ppath \<Rightarrow> string list \<Rightarrow> string" where
  "verify_line nupkg names =
     ''  '' @ path_name nupkg @ '': ''
       @ (if list_ex (contains ''README'') names then ''OK'' else ''WARNING: no README'')
       @ '' ('' @ str_nat (length names) @ '' files)''"

fun verify_loop :: "'w os \<Rightarrow> ppath list \<Rightarrow> 'w state \<Rightarrow> unit res \<times> 'w state" where
  "verify_loop os [] st = (Return (), st)"
| "verify_loop os (nupkg # rest) st =
     (let opened = zip_namelist os nupkg (world st);
          st1 = st\<lparr>trace := trace st @ [ZipOpen nupkg opened]\<rparr>
      in case opened of
           Inl e \<Rightarrow> (Raise e, st1)
         | Inr names \<Rightarrow> verify_loop os rest (print (verify_line nupkg names) st1))"

definition step4_verify :: "'w os \<Rightarrow> ppath \<Rightarrow> 'w state \<Rightarrow> unit res \<times> 'w state" where
  "step4_verify os output_dir st =
     (let st1 = print (CHR 0x0A # ''[4/5] Verifying packages...'') st
      in verify_loop os (sorted_paths (glob os output_dir ''*.nupkg'' (world st1))) st1)"

text \<open>
  The test of lines 107 and 125, \<^verbatim>\<open>nupkg.name.startswith(r["name"] + ".")\<close>.
\<close>

definition matches :: "string \<Rightarrow> artifact \<Rightarrow> bool" where
  "matches fname r = startswith fname (name r @ ''.'')"

text \<open>Step 5 (lines 92 to 108). The inner loop of lines 106 to 108 is \<open>mark_signed\<close>.\<close>

fun mark_signed :: "string \<Rightarrow> artifact list \<Rightarrow> artifact list" where
  "mark_signed fname [] = []"
| "mark_signed fname (r # rs) =
     (if matches fname r then r\<lparr>signed := True\<rparr> else r) # mark_signed fname rs"

definition sign_cmd :: "args \<Rightarrow> string \<Rightarrow> ppath \<Rightarrow> command" where
  "sign_cmd a cert nupkg =
     Argv ([''dotnet'', ''nuget'', ''sign'', str_path nupkg,
            ''--certificate-path'', cert,
            ''--timestamper'', ''http://timestamp.digicert.com'']
           @ (case cert_password a of
                None \<Rightarrow> []
              | Some pw \<Rightarrow> if pw = [] then [] else [''--certificate-password'', pw]))"

fun sign_loop ::
  "'w os \<Rightarrow> args \<Rightarrow> ppath \<Rightarrow> string \<Rightarrow> ppath list \<Rightarrow> 'w state \<Rightarrow> unit res \<times> 'w state" where
  "sign_loop os a root cert [] st = (Return (), st)"
| "sign_loop os a root cert (nupkg # rest) st =
     bind_res
       (run os (sign_cmd a cert nupkg) (Some root) True)
       (\<lambda>r st2. sign_loop os a root cert rest
                  (st2\<lparr>results := mark_signed (path_name nupkg) (results st2)\<rparr>))
       st"

definition step5_sign ::
  "'w os \<Rightarrow> args \<Rightarrow> ppath \<Rightarrow> ppath \<Rightarrow> 'w state \<Rightarrow> unit res \<times> 'w state" where
  "step5_sign os a root output_dir st =
     (if sign a then
        (let st1 = print (CHR 0x0A # ''[4.5/5] Signing packages...'') st
         in case cert_path a of
              None \<Rightarrow> (SysExit 1, print ''  ERROR: --cert-path required for signing'' st1)
            | Some cert \<Rightarrow>
                if cert = [] then (SysExit 1, print ''  ERROR: --cert-path required for signing'' st1)
                else sign_loop os a root cert
                       (sorted_paths (glob os output_dir ''*.*nupkg'' (world st1))) st1)
      else (Return (), st))"

text \<open>Step 6 (lines 111 to 128). The inner loop of lines 124 to 126 is \<open>mark_published\<close>.\<close>

fun mark_published :: "string \<Rightarrow> artifact list \<Rightarrow> artifact list" where
  "mark_published fname [] = []"
| "mark_published fname (r # rs) =
     (if matches fname r then r\<lparr>published := True\<rparr> else r)
       # mark_published fname rs"

definition push_cmd :: "string \<Rightarrow> ppath \<Rightarrow> command" where
  "push_cmd key nupkg =
     Argv [''dotnet'', ''nuget'', ''push'', str_path nupkg,
           ''--api-key'', key,
           ''--source'', ''https://api.nuget.org/v3/index.json'',
           ''--skip-duplicate'']"

fun publish_loop ::
  "'w os \<Rightarrow> ppath \<Rightarrow> string \<Rightarrow> ppath list \<Rightarrow> 'w state \<Rightarrow> unit res \<times> 'w state" where
  "publish_loop os root key [] st = (Return (), st)"
| "publish_loop os root key (nupkg # rest) st =
     bind_res
       (run os (push_cmd key nupkg) (Some root) True)
       (\<lambda>r st2. publish_loop os root key rest
                  (st2\<lparr>results := mark_published (path_name nupkg) (results st2)\<rparr>))
       (print (''  Publishing '' @ path_name nupkg @ ''...'') st)"

definition step6_publish ::
  "'w os \<Rightarrow> args \<Rightarrow> ppath \<Rightarrow> ppath \<Rightarrow> 'w state \<Rightarrow> unit res \<times> 'w state" where
  "step6_publish os a root output_dir st =
     (if publish a then
        (let st1 = print (CHR 0x0A # ''[5/5] Publishing to NuGet...'') st
         in case api_key a of
              None \<Rightarrow> (SysExit 1, print ''  ERROR: --api-key required for publishing'' st1)
            | Some key \<Rightarrow>
                if key = [] then (SysExit 1, print ''  ERROR: --api-key required for publishing'' st1)
                else publish_loop os root key
                       (sorted_paths (glob os output_dir ''*.*nupkg'' (world st1))) st1)
      else
        (Return (),
         print (CHR 0x0A # ''[5/5] Skipping publish (dry-run mode). Use --publish to push to NuGet.'') st))"

text \<open>The summary (lines 131 to 141).\<close>

definition summary_row :: "artifact \<Rightarrow> string" where
  "summary_row r =
     ljust 55 (name r) @ '' '' @ rjust 5 (if packed r then ''OK'' else ''-'')
       @ '' '' @ rjust 5 (if signed r then ''OK'' else ''-'')
       @ '' '' @ rjust 5 (if published r then ''OK'' else ''-'')"

fun print_rows :: "artifact list \<Rightarrow> 'w state \<Rightarrow> 'w state" where
  "print_rows [] st = st"
| "print_rows (r # rs) st = print_rows rs (print (summary_row r) st)"

definition summary :: "'w state \<Rightarrow> unit res \<times> 'w state" where
  "summary st =
     (let st1 = print (CHR 0x0A # replicate 60 CHR ''='') st;
          st2 = print ''SUMMARY'' st1;
          st3 = print (replicate 60 CHR ''='') st2;
          st4 = print (ljust 55 ''Package'' @ '' '' @ rjust 5 ''Pack'' @ '' '' @ rjust 5 ''Sign''
                        @ '' '' @ rjust 5 ''Push'') st3;
          st5 = print (replicate 75 CHR ''-'') st4;
          st6 = print_rows (results st5) st5
      in (Return (), print [] st6))"

definition make_output_dir :: "'w os \<Rightarrow> ppath \<Rightarrow> 'w state \<Rightarrow> unit res \<times> 'w state" where
  "make_output_dir os output_dir st =
     (case mkdir os output_dir (world st) of
        (Some e, w') \<Rightarrow> (Raise e, st\<lparr>world := w'\<rparr>)
      | (None, w') \<Rightarrow> (Return (), st\<lparr>world := w'\<rparr>))"

text \<open>
  \<open>main\<close> takes the parsed arguments, the module's list of projects and the world it
  starts in. The registry does not exist before step 3; the state holds the empty
  list until then.
\<close>

definition main :: "'w os \<Rightarrow> args \<Rightarrow> string list \<Rightarrow> 'w \<Rightarrow> unit res \<times> 'w state" where
  "main os a PKGS w =
     (let root = script_root os;
          output_dir = truediv root ''packages''
      in bind_res (make_output_dir os output_dir) (\<lambda>u.
         bind_res (\<lambda>st. (Return (), banner a st)) (\<lambda>u.
         bind_res (step1_restore os root) (\<lambda>r.
         bind_res (step2_build os root) (\<lambda>r.
         bind_res (step3_pack os a root output_dir PKGS) (\<lambda>u.
         bind_res (step4_verify os output_dir) (\<lambda>u.
         bind_res (step5_sign os a root output_dir) (\<lambda>u.
         bind_res (step6_publish os a root output_dir) (\<lambda>u.
         summary))))))))
         \<lparr>world = w, trace = [], results = []\<rparr>)"

definition script :: "'w os \<Rightarrow> args \<Rightarrow> 'w \<Rightarrow> unit res \<times> 'w state" where
  "script os a w = main os a PACKAGES w"

subsection \<open>Notions used in the statements\<close>

text \<open>
  The specification names the two inner loops \<open>matchAndMark(archiveFilename, records,
  field)\<close>; the fields the script marks are \<open>signed\<close> and \<open>published\<close>.
\<close>

datatype field = Signed | Published

definition matchAndMark :: "string \<Rightarrow> artifact list \<Rightarrow> field \<Rightarrow> artifact list" where
  "matchAndMark fname records f =
     (case f of
        Signed \<Rightarrow> mark_signed fname records
      | Published \<Rightarrow> mark_published fname records)"

text \<open>The commands spawned in a trace, with their outcomes, oldest first.\<close>

fun spawns :: "event list \<Rightarrow> (command \<times> (pyexn + completed)) list" where
  "spawns [] = []"
| "spawns (Spawn c out # evs) = (c, out) # spawns evs"
| "spawns (Print s # evs) = spawns evs"
| "spawns (ZipOpen p out # evs) = spawns evs"

text \<open>The archives opened in a trace, oldest first.\<close>

fun opened :: "event list \<Rightarrow> ppath list" where
  "opened [] = []"
| "opened (ZipOpen p out # evs) = p # opened evs"
| "opened (Print s # evs) = opened evs"
| "opened (Spawn c out # evs) = opened evs"

fun argv :: "command \<Rightarrow> string list" where
  "argv (Argv xs) = xs"
| "argv (Str s) = []"

definition is_pack :: "command \<Rightarrow> bool" where
  "is_pack c = (take 2 (argv c) = [''dotnet'', ''pack''])"

definition is_sign :: "command \<Rightarrow> bool" where
  "is_sign c = (take 3 (argv c) = [''dotnet'', ''nuget'', ''sign''])"

definition is_push :: "command \<Rightarrow> bool" where
  "is_push c = (take 3 (argv c) = [''dotnet'', ''nuget'', ''push''])"

text \<open>A spawned command succeeded: it ran and its exit code is zero.\<close>

definition succeeded :: "pyexn + completed \<Rightarrow> bool" where
  "succeeded out = (case out of Inl e \<Rightarrow> False | Inr c \<Rightarrow> returncode c = 0)"

text \<open>A record only gained flags: same name, and no flag went from true to false.\<close>

definition flags_le :: "artifact \<Rightarrow> artifact \<Rightarrow> bool" where
  "flags_le r r' =
     (name r' = name r \<and> packed r \<le> packed r' \<and> signed r \<le> signed r'
      \<and> published r \<le> published r')"

text \<open>The result of a program without its value.\<close>

fun status :: "'a res \<Rightarrow> unit res" where
  "status (Return x) = Return ()"
| "status (SysExit n) = SysExit n"
| "status (Raise e) = Raise e"

subsection \<open>Notions used in the proofs\<close>

text \<open>The line \<^verbatim>\<open>run\<close> prints before it spawns the command.\<close>

definition echo :: "command \<Rightarrow> string" where
  "echo cmd = ''  > '' @ (case cmd of Argv xs \<Rightarrow> join '' '' xs | Str s \<Rightarrow> s)"

text \<open>What \<^verbatim>\<open>run\<close> (with \<open>check\<close>) prints after the command, and how it ends.\<close>

fun run_tail :: "pyexn + completed \<Rightarrow> event list" where
  "run_tail (Inl e) = []"
| "run_tail (Inr c) =
     (if returncode c \<noteq> 0 then [Print (''  ERROR: '' @ strip (stderr c))] else [])"

fun run_status :: "pyexn + completed \<Rightarrow> unit res" where
  "run_status (Inl e) = Raise e"
| "run_status (Inr c) = (if returncode c \<noteq> 0 then SysExit 1 else Return ())"

text \<open>Every command spawned in these events succeeded.\<close>

definition clean :: "event list \<Rightarrow> bool" where
  "clean evs = list_all succeeded (map snd (spawns evs))"

text \<open>
  The events end with a command that did not succeed, and with what \<^verbatim>\<open>run\<close> prints
  then; every command before it succeeded; \<open>r\<close> is how \<^verbatim>\<open>run\<close> ended.
\<close>

definition fails :: "unit res \<Rightarrow> event list \<Rightarrow> bool" where
  "fails r evs =
     (\<exists>pre c out. evs = pre @ Spawn c out # run_tail out \<and> clean pre
                  \<and> \<not> succeeded out \<and> r = run_status out)"

definition seg :: "unit res \<Rightarrow> event list \<Rightarrow> bool" where
  "seg r evs = (if r = Return () then clean evs else clean evs \<or> fails r evs)"

text \<open>
  \<open>grows \<phi> \<psi> st r st'\<close>: the trace of \<open>st'\<close> is the trace of \<open>st\<close> followed by
  events whose commands all satisfy \<open>\<phi>\<close>; if the program ended normally they all
  succeeded, and otherwise at most the last one did not; and if every record of \<open>st\<close>
  satisfies \<open>\<psi>\<close>, so does every record of \<open>st'\<close>. \<open>keeps \<phi> \<psi> f\<close>: every run of
  \<open>f\<close> is of this kind.
\<close>

definition grows ::
  "(command \<Rightarrow> bool) \<Rightarrow> (artifact \<Rightarrow> bool) \<Rightarrow> 'w state \<Rightarrow> unit res \<Rightarrow> 'w state \<Rightarrow> bool" where
  "grows \<phi> \<psi> st r st' =
     (\<exists>evs. trace st' = trace st @ evs \<and> list_all \<phi> (map fst (spawns evs)) \<and> seg r evs
            \<and> (list_all \<psi> (results st) \<longrightarrow> list_all \<psi> (results st')))"

definition keeps ::
  "(command \<Rightarrow> bool) \<Rightarrow> (artifact \<Rightarrow> bool) \<Rightarrow> ('w state \<Rightarrow> 'a res \<times> 'w state) \<Rightarrow> bool" where
  "keeps \<phi> \<psi> f = (\<forall>st r st'. f st = (r, st') \<longrightarrow> grows \<phi> \<psi> st (status r) st')"


text \<open>
  The three loops that spawn one command per element (lines 70 to 81, 97 to 108 and
  116 to 126) are instances of one loop: an optional line printed first, the
  command, and the update of the registry after the command succeeded.
\<close>

fun spawn_loop ::
  "'w os \<Rightarrow> ppath \<Rightarrow> ('x \<Rightarrow> string option) \<Rightarrow> ('x \<Rightarrow> command)
     \<Rightarrow> ('x \<Rightarrow> artifact list \<Rightarrow> artifact list) \<Rightarrow> 'x list \<Rightarrow> 'w state \<Rightarrow> unit res \<times> 'w state" where
  "spawn_loop os root hdr cmd upd [] st = (Return (), st)"
| "spawn_loop os root hdr cmd upd (x # xs) st =
     bind_res
       (run os (cmd x) (Some root) True)
       (\<lambda>r st2. spawn_loop os root hdr cmd upd xs (st2\<lparr>results := upd x (results st2)\<rparr>))
       (case hdr x of None \<Rightarrow> st | Some h \<Rightarrow> print h st)"

text \<open>
  \<open>main\<close> is its steps up to the packing, followed by the steps that work on the
  archives.
\<close>

definition setup_steps ::
  "'w os \<Rightarrow> args \<Rightarrow> ppath \<Rightarrow> ppath \<Rightarrow> 'w state \<Rightarrow> completed res \<times> 'w state" where
  "setup_steps os a root output_dir =
     bind_res (make_output_dir os output_dir) (\<lambda>u.
     bind_res (\<lambda>st. (Return (), banner a st)) (\<lambda>u.
     bind_res (step1_restore os root) (\<lambda>r.
     step2_build os root)))"

definition first_steps ::
  "'w os \<Rightarrow> args \<Rightarrow> string list \<Rightarrow> ppath \<Rightarrow> ppath \<Rightarrow> 'w state \<Rightarrow> unit res \<times> 'w state" where
  "first_steps os a PKGS root output_dir =
     bind_res (setup_steps os a root output_dir) (\<lambda>r. step3_pack os a root output_dir PKGS)"

definition archive_steps :: "'w os \<Rightarrow> args \<Rightarrow> ppath \<Rightarrow> ppath \<Rightarrow> 'w state \<Rightarrow> unit res \<times> 'w state" where
  "archive_steps os a root output_dir =
     bind_res (step4_verify os output_dir) (\<lambda>u.
     bind_res (step5_sign os a root output_dir) (\<lambda>u.
     bind_res (step6_publish os a root output_dir) (\<lambda>u.
     summary)))"

text \<open>The files that step 4, and steps 5 and 6, work on in a world.\<close>

definition verify_files :: "'w os \<Rightarrow> ppath \<Rightarrow> 'w \<Rightarrow> ppath list" where
  "verify_files os output_dir w = sorted_paths (glob os output_dir ''*.nupkg'' w)"

definition sign_files :: "'w os \<Rightarrow> ppath \<Rightarrow> 'w \<Rightarrow> ppath list" where
  "sign_files os output_dir w = sorted_paths (glob os output_dir ''*.*nupkg'' w)"

text \<open>An event of the steps that work on the archives: an archive is opened, signed or pushed.\<close>

fun archive_event :: "event \<Rightarrow> bool" where
  "archive_event (ZipOpen p z) = True"
| "archive_event (Spawn c out) = (is_sign c \<or> is_push c)"
| "archive_event (Print s) = False"

text \<open>
  Two states that differ at most in what was printed and in the entries listed by the
  archives that were opened; two programs that, from such states, end with the same
  status in such states.
\<close>

definition alike :: "'w state \<Rightarrow> 'w state \<Rightarrow> bool" where
  "alike s t = (world s = world t \<and> results s = results t \<and> spawns (trace s) = spawns (trace t)
                \<and> opened (trace s) = opened (trace t))"

definition sim :: "('w state \<Rightarrow> 'a res \<times> 'w state) \<Rightarrow> ('w state \<Rightarrow> 'b res \<times> 'w state) \<Rightarrow> bool" where
  "sim f g = (\<forall>s t. alike s t \<longrightarrow> status (fst (f s)) = status (fst (g t))
                                  \<and> alike (snd (f s)) (snd (g t)))"

subsection \<open>A small environment for concrete runs\<close>

text \<open>
  The world is the list of file names in the output directory. \<^verbatim>\<open>dotnet pack\<close> of a
  project adds a package and a symbols package, unless the project path contains
  \<open>Bad\<close>: then it fails with exit code 1. Every other command succeeds. An archive
  whose name contains \<open>Bare\<close> has no README entry.
\<close>

definition ok :: completed where
  "ok = \<lparr>returncode = 0, stdout = [], stderr = []\<rparr>"

definition demo_run ::
  "command \<Rightarrow> bool \<Rightarrow> ppath option \<Rightarrow> string list \<Rightarrow> (pyexn + completed) \<times> string list" where
  "demo_run cmd shell cwd files =
     (case cmd of
        Str s \<Rightarrow> (Inr ok, files)
      | Argv xs \<Rightarrow>
          if 2 < length xs \<and> xs ! 1 = ''pack'' then
            (if contains ''Bad'' (xs ! 2)
             then (Inr \<lparr>returncode = 1, stdout = [], stderr = '' pack failed'' @ [CHR 0x0A]\<rparr>,
                   files)
             else (Inr ok, files @ [stem (PurePosixPath (xs ! 2)) @ ''.1.0.0.nupkg'',
                                    stem (PurePosixPath (xs ! 2)) @ ''.1.0.0.snupkg'']))
          else (Inr ok, files))"

definition demo_zip :: "ppath \<Rightarrow> string list \<Rightarrow> pyexn + string list" where
  "demo_zip p files =
     (if contains ''Bare'' (path_name p) then Inr [''lib/x.dll'']
      else Inr [''README.md'', ''lib/x.dll''])"

definition demo_os :: "(string list) os" where
  "demo_os = \<lparr>script_root = PurePosixPath ''/r'',
              subprocess_run = demo_run,
              mkdir = (\<lambda>p w. (None, w)),
              iterdir = (\<lambda>p w. w),
              zip_namelist = demo_zip\<rparr>"

definition demo_args :: args where
  "demo_args = \<lparr>version = ''1.0.0'', api_key = Some ''k'', publish = True, sign = True,
                cert_path = Some ''c.pfx'', cert_password = None\<rparr>"

section \<open>Name matching and marking\<close>

lemma startswith_iff: "startswith s p \<longleftrightarrow> (\<exists>t. s = p @ t)"
  by (induction s p rule: startswith.induct) auto

lemma mark_signed_map:
  "mark_signed f rs = map (\<lambda>r. if matches f r then r\<lparr>signed := True\<rparr> else r) rs"
  by (induction rs) auto

lemma mark_published_map:
  "mark_published f rs = map (\<lambda>r. if matches f r then r\<lparr>published := True\<rparr> else r) rs"
  by (induction rs) auto

lemma matches_signed_upd: "matches f (r\<lparr>signed := b\<rparr>) = matches f r"
  by (simp add: matches_def)

lemma matches_published_upd: "matches f (r\<lparr>published := b\<rparr>) = matches f r"
  by (simp add: matches_def)

text \<open>
  C2. An archive file name matches a record exactly when the record's name followed by
  a dot is a prefix of the file name. A record named \<open>Foo\<close> matches
  \<open>Foo.1.2.3.archive\<close> and \<open>Foo.1.2.3.symbols.archive\<close> and does not match
  \<open>FooBar.1.0.0.archive\<close>. Both inner loops mark exactly the records that match.
\<close>

theorem name_matching:
  "(matches fname r \<longleftrightarrow> (\<exists>rest. fname = name r @ ''.'' @ rest))
   \<and> matches ''Foo.1.2.3.archive'' (r\<lparr>name := ''Foo''\<rparr>)
   \<and> matches ''Foo.1.2.3.symbols.archive'' (r\<lparr>name := ''Foo''\<rparr>)
   \<and> \<not> matches ''FooBar.1.0.0.archive'' (r\<lparr>name := ''Foo''\<rparr>)
   \<and> mark_signed fname rs = map (\<lambda>x. if matches fname x then x\<lparr>signed := True\<rparr> else x) rs
   \<and> mark_published fname rs
       = map (\<lambda>x. if matches fname x then x\<lparr>published := True\<rparr> else x) rs"
proof -
  have "matches fname r \<longleftrightarrow> (\<exists>rest. fname = name r @ ''.'' @ rest)"
    by (simp add: matches_def startswith_iff)
  moreover have "matches ''Foo.1.2.3.archive'' (r\<lparr>name := ''Foo''\<rparr>)"
    by (simp add: matches_def)
  moreover have "matches ''Foo.1.2.3.symbols.archive'' (r\<lparr>name := ''Foo''\<rparr>)"
    by (simp add: matches_def)
  moreover have "\<not> matches ''FooBar.1.0.0.archive'' (r\<lparr>name := ''Foo''\<rparr>)"
    by (simp add: matches_def)
  ultimately show ?thesis
    by (simp only: mark_signed_map mark_published_map simp_thms)
qed

text \<open>
  C9. Marking is idempotent: for every registry, file name and field, marking twice
  with the same file name and field gives the registry that marking once gives.
\<close>

theorem matchAndMark_idempotent:
  "matchAndMark fname (matchAndMark fname records f) f = matchAndMark fname records f"
proof (cases f)
  case Signed
  have "mark_signed fname (mark_signed fname records) = mark_signed fname records"
    by (induction records) (simp_all add: matches_signed_upd)
  with Signed show ?thesis by (simp add: matchAndMark_def)
next
  case Published
  have "mark_published fname (mark_published fname records) = mark_published fname records"
    by (induction records) (simp_all add: matches_published_upd)
  with Published show ?thesis by (simp add: matchAndMark_def)
qed

section \<open>Sequencing and traces\<close>

lemma spawns_append [simp]: "spawns (xs @ ys) = spawns xs @ spawns ys"
  by (induction xs rule: spawns.induct) auto

lemma opened_append [simp]: "opened (xs @ ys) = opened xs @ opened ys"
  by (induction xs rule: opened.induct) auto

lemma spawns_run_tail [simp]: "spawns (run_tail out) = []"
  by (cases out) auto

lemma opened_run_tail [simp]: "opened (run_tail out) = []"
  by (cases out) auto

lemma clean_simps [simp]:
  "clean []" "clean (Print s # evs) = clean evs" "clean (ZipOpen p z # evs) = clean evs"
  "clean (Spawn c out # evs) = (succeeded out \<and> clean evs)"
  "clean (xs @ ys) = (clean xs \<and> clean ys)" "clean (run_tail out)"
  by (auto simp: clean_def)

lemma run_status_Return [simp]: "(run_status out = Return ()) = succeeded out"
  by (cases out) (auto simp: succeeded_def)

lemma status_unit [simp]: "status (r :: unit res) = r"
  by (cases r) auto

lemma succeeded_run_tail: "succeeded out \<Longrightarrow> run_tail out = []"
  by (cases out) (auto simp: succeeded_def)

lemma bind_res_cases:
  assumes "bind_res m f s = (r, s')"
  obtains (ret) x s1 where "m s = (Return x, s1)" "f x s1 = (r, s')"
        | (abort) r0 where "m s = (r0, s')" "status r0 = status r" "status r \<noteq> Return ()"
  using assms by (auto simp: bind_res_def split: prod.splits res.splits)

lemma failsI:
  "clean pre \<Longrightarrow> \<not> succeeded out \<Longrightarrow> r = run_status out
     \<Longrightarrow> fails r (pre @ Spawn c out # run_tail out)"
  unfolding fails_def by blast

lemma fails_prepend: "clean pre \<Longrightarrow> fails r evs \<Longrightarrow> fails r (pre @ evs)"
proof -
  assume c: "clean pre" and f: "fails r evs"
  from f obtain p c0 out where e: "evs = p @ Spawn c0 out # run_tail out" "clean p"
    "\<not> succeeded out" "r = run_status out" unfolding fails_def by blast
  from c e have "clean (pre @ p)" by simp
  from failsI [OF this e(3) e(4)] show ?thesis using e(1) by simp
qed

lemma seg_prepend: "clean pre \<Longrightarrow> seg r evs \<Longrightarrow> seg r (pre @ evs)"
  by (auto simp: seg_def fails_prepend)

section \<open>Effects of \<open>run\<close> and of the loops\<close>

lemma run_effect:
  assumes "run os cmd cwd True st = (r, st')"
  shows "\<exists>out. trace st' = trace st @ [Print (echo cmd), Spawn cmd out] @ run_tail out
           \<and> status r = run_status out \<and> results st' = results st
           \<and> subprocess_run os cmd (case cmd of Str s \<Rightarrow> True | Argv xs \<Rightarrow> False) cwd (world st)
               = (out, world st')
           \<and> (\<forall>c. r = Return c \<longrightarrow> out = Inr c)"
  using assms
  by (auto simp: run_def print_def echo_def Let_def split: prod.splits sum.splits if_splits)

lemma spawn_loop_effect:
  "spawn_loop os root hdr cmd upd xs st = (r, st') \<Longrightarrow>
   \<exists>evs m. trace st' = trace st @ evs \<and> m \<le> length xs
     \<and> map fst (spawns evs) = map cmd (take m xs) \<and> opened evs = []
     \<and> (if r = Return () then m = length xs \<and> clean evs
                              \<and> results st' = foldl (\<lambda>rs x. upd x rs) (results st) xs
        else 0 < m \<and> fails r evs
             \<and> results st' = foldl (\<lambda>rs x. upd x rs) (results st) (take (m - 1) xs))"
proof (induction xs arbitrary: st)
  case Nil
  then show ?case by auto
next
  case (Cons p ps)
  define st0 where "st0 = (case hdr p of None \<Rightarrow> st | Some h \<Rightarrow> print h st)"
  define hs where "hs = (case hdr p of None \<Rightarrow> [] | Some h \<Rightarrow> [Print h])"
  define c where "c = cmd p"
  have st0: "trace st0 = trace st @ hs" "results st0 = results st"
    by (simp_all add: st0_def hs_def print_def split: option.splits)
  have hs: "clean hs" "spawns hs = []" "opened hs = []"
    by (simp_all add: hs_def split: option.splits)
  from Cons.prems have b: "bind_res (run os c (Some root) True)
       (\<lambda>r st2. spawn_loop os root hdr cmd upd ps (st2\<lparr>results := upd p (results st2)\<rparr>))
       st0 = (r, st')" by (simp add: st0_def c_def)
  from b show ?case
  proof (cases rule: bind_res_cases)
    case (ret x s1)
    from run_effect [OF ret(1)] obtain o1 where
      t1: "trace s1 = trace st0 @ [Print (echo c), Spawn c o1] @ run_tail o1"
      and q1: "status (Return x) = run_status o1" and r1: "results s1 = results st0" by blast
    from q1 have s1: "succeeded o1" by (metis run_status_Return status.simps(1))
    from Cons.IH [OF ret(2)] obtain evs m where
      e1: "trace st' = trace (s1\<lparr>results := upd p (results s1)\<rparr>) @ evs"
      and e2: "m \<le> length ps"
      and e3: "map fst (spawns evs) = map cmd (take m ps)"
      and e4: "opened evs = []"
      and e5: "(if r = Return () then m = length ps \<and> clean evs
             \<and> results st' = foldl (\<lambda>rs x. upd x rs) (results (s1\<lparr>results := upd p (results s1)\<rparr>)) ps
          else 0 < m \<and> fails r evs
             \<and> results st' = foldl (\<lambda>rs x. upd x rs) (results (s1\<lparr>results := upd p (results s1)\<rparr>)) (take (m - 1) ps))"
      by blast
    define pre where "pre = hs @ [Print (echo c), Spawn c o1]"
    have cp: "clean pre" using s1 hs by (simp add: pre_def)
    have tr: "trace st' = trace st @ (pre @ evs)"
      using e1 t1 s1 st0 by (simp add: succeeded_run_tail pre_def)
    have sp: "map fst (spawns (pre @ evs)) = map cmd (take (Suc m) (p # ps))"
      using e3 hs by (simp add: pre_def c_def)
    have op: "opened (pre @ evs) = []" using e4 hs by (simp add: pre_def)
    have rest: "(if r = Return () then Suc m = length (p # ps) \<and> clean (pre @ evs)
                              \<and> results st' = foldl (\<lambda>rs x. upd x rs) (results st) (p # ps)
        else 0 < Suc m \<and> fails r (pre @ evs)
             \<and> results st' = foldl (\<lambda>rs x. upd x rs) (results st) (take (Suc m - 1) (p # ps)))"
    proof (cases "r = Return ()")
      case True
      with e5 cp r1 st0 show ?thesis by simp
    next
      case False
      with e5 have "0 < m" "fails r evs"
        "results st' = foldl (\<lambda>rs x. upd x rs) (results (s1\<lparr>results := upd p (results s1)\<rparr>)) (take (m - 1) ps)"
        by simp_all
      moreover from \<open>0 < m\<close> have "take m (p # ps) = p # take (m - 1) ps" by (cases m) simp_all
      ultimately show ?thesis using False cp r1 st0 by (simp add: fails_prepend)
    qed
    from tr e2 sp op rest show ?thesis
      by (intro exI [of _ "pre @ evs"] exI [of _ "Suc m"]) simp
  next
    case (abort r0)
    from run_effect [OF abort(1)] obtain o1 where
      t1: "trace st' = trace st0 @ [Print (echo c), Spawn c o1] @ run_tail o1"
      and q1: "status r0 = run_status o1" and r1: "results st' = results st0" by blast
    from q1 abort have rs: "r = run_status o1" and nr: "r \<noteq> Return ()" by simp_all
    then have ns: "\<not> succeeded o1" by (metis run_status_Return)
    define evs where "evs = (hs @ [Print (echo c)]) @ Spawn c o1 # run_tail o1"
    have f: "fails r evs"
      unfolding evs_def using ns rs hs by (intro failsI) simp_all
    have tr: "trace st' = trace st @ evs"
      using t1 st0 by (simp add: evs_def)
    have sp: "map fst (spawns evs) = map cmd (take (Suc 0) (p # ps))"
      using hs by (simp add: evs_def c_def)
    have op: "opened evs = []" using hs by (simp add: evs_def)
    from tr sp op f r1 st0 nr show ?thesis
      by (intro exI [of _ evs] exI [of _ "Suc 0"]) simp
  qed
qed

lemma pack_loop_spawn_loop:
  "pack_loop os a root out PKGS st =
     spawn_loop os root (\<lambda>p. Some (''  Packing '' @ stem (truediv root p) @ ''...''))
       (pack_cmd a root out) (\<lambda>p rs. rs @ [new_record root p]) PKGS st"
  by (induction PKGS arbitrary: st) (simp_all add: bind_res_def)

lemma sign_loop_spawn_loop:
  "sign_loop os a root cert ps st =
     spawn_loop os root (\<lambda>p. None) (sign_cmd a cert) (\<lambda>p. mark_signed (path_name p)) ps st"
  by (induction ps arbitrary: st) (simp_all add: bind_res_def)

lemma publish_loop_spawn_loop:
  "publish_loop os root key ps st =
     spawn_loop os root (\<lambda>p. Some (''  Publishing '' @ path_name p @ ''...''))
       (push_cmd key) (\<lambda>p. mark_published (path_name p)) ps st"
  by (induction ps arbitrary: st) (simp_all add: bind_res_def)

lemma foldl_snoc_records:
  "foldl (\<lambda>rs p. rs @ [f p]) rs0 ps = rs0 @ map f ps"
  by (induction ps arbitrary: rs0) simp_all

lemma verify_loop_effect:
  "verify_loop os ps st = (r, st') \<Longrightarrow>
   \<exists>evs k. trace st' = trace st @ evs \<and> k \<le> length ps \<and> spawns evs = []
     \<and> opened evs = take k ps \<and> results st' = results st \<and> world st' = world st
     \<and> (if r = Return () then k = length ps
        else 0 < k \<and> (\<exists>e. r = Raise e \<and> zip_namelist os (ps ! (k - 1)) (world st) = Inl e))"
proof (induction ps arbitrary: st)
  case Nil
  then show ?case by auto
next
  case (Cons p ps)
  show ?case
  proof (cases "zip_namelist os p (world st)")
    case (Inl e)
    with Cons.prems have "r = Raise e" "st' = st\<lparr>trace := trace st @ [ZipOpen p (Inl e)]\<rparr>"
      by (simp_all add: Let_def)
    with Inl show ?thesis
      by (intro exI [of _ "[ZipOpen p (Inl e)]"] exI [of _ "Suc 0"]) simp
  next
    case (Inr names)
    define st1 where "st1 = print (verify_line p names) (st\<lparr>trace := trace st @ [ZipOpen p (Inr names)]\<rparr>)"
    from Inr Cons.prems have "verify_loop os ps st1 = (r, st')" by (simp add: Let_def st1_def)
    from Cons.IH [OF this] obtain evs k where
      e: "trace st' = trace st1 @ evs" "k \<le> length ps" "spawns evs = []" "opened evs = take k ps"
         "results st' = results st1" "world st' = world st1"
         "(if r = Return () then k = length ps
           else 0 < k \<and> (\<exists>e. r = Raise e \<and> zip_namelist os (ps ! (k - 1)) (world st1) = Inl e))"
      by blast
    have s1: "trace st1 = trace st @ [ZipOpen p (Inr names), Print (verify_line p names)]"
      "results st1 = results st" "world st1 = world st"
      by (simp_all add: st1_def print_def)
    from e s1 show ?thesis
      by (intro exI [of _ "[ZipOpen p (Inr names), Print (verify_line p names)] @ evs"] exI [of _ "Suc k"])
         (auto split: if_splits)
  qed
qed

section \<open>The steps\<close>

lemma bind_res_assoc:
  "bind_res (bind_res m f) g = bind_res m (\<lambda>x. bind_res (f x) g)"
  by (rule ext) (simp add: bind_res_def split: prod.splits res.splits)

lemma main_split:
  "main os a PKGS w =
     bind_res (first_steps os a PKGS (script_root os) (truediv (script_root os) ''packages''))
       (\<lambda>u. archive_steps os a (script_root os) (truediv (script_root os) ''packages''))
       \<lparr>world = w, trace = [], results = []\<rparr>"
  by (simp add: main_def first_steps_def setup_steps_def archive_steps_def bind_res_assoc Let_def)

lemma command_kinds [simp]:
  "\<not> is_pack restore_cmd" "\<not> is_sign restore_cmd" "\<not> is_push restore_cmd"
  "\<not> is_pack build_cmd" "\<not> is_sign build_cmd" "\<not> is_push build_cmd"
  "is_pack (pack_cmd a root out p)" "\<not> is_sign (pack_cmd a root out p)"
  "\<not> is_push (pack_cmd a root out p)"
  "\<not> is_pack (sign_cmd a cert f)" "is_sign (sign_cmd a cert f)" "\<not> is_push (sign_cmd a cert f)"
  "\<not> is_pack (push_cmd key f)" "\<not> is_sign (push_cmd key f)" "is_push (push_cmd key f)"
  by (simp_all add: is_pack_def is_sign_def is_push_def restore_cmd_def build_cmd_def
        pack_cmd_def sign_cmd_def push_cmd_def)

lemma print_run_effect:
  assumes "run os c cwd True (print h st) = (r, st')"
  shows "\<exists>out. trace st' = trace st @ [Print h, Print (echo c), Spawn c out] @ run_tail out
           \<and> status r = run_status out \<and> results st' = results st"
proof -
  from run_effect [OF assms] obtain out where
    "trace st' = trace (print h st) @ [Print (echo c), Spawn c out] @ run_tail out"
    "status r = run_status out" "results st' = results (print h st)" by blast
  then show ?thesis by (intro exI [of _ out]) (simp add: print_def)
qed

lemma seg_run: "clean pre \<Longrightarrow> seg (run_status out) (pre @ Spawn c out # run_tail out)"
proof (cases "succeeded out")
  case True
  moreover assume "clean pre"
  ultimately show ?thesis by (simp add: seg_def succeeded_run_tail)
next
  case False
  moreover assume "clean pre"
  ultimately show ?thesis by (simp add: seg_def failsI)
qed

lemma step1_effect:
  assumes "step1_restore os root st = (r, st')"
  shows "\<exists>h out. trace st' = trace st @ [Print h, Print (echo restore_cmd), Spawn restore_cmd out]
                     @ run_tail out
           \<and> status r = run_status out \<and> results st' = results st"
  using print_run_effect [OF assms [unfolded step1_restore_def]] by blast

lemma step2_effect:
  assumes "step2_build os root st = (r, st')"
  shows "\<exists>h out. trace st' = trace st @ [Print h, Print (echo build_cmd), Spawn build_cmd out]
                     @ run_tail out
           \<and> status r = run_status out \<and> results st' = results st"
  using print_run_effect [OF assms [unfolded step2_build_def]] by blast

lemma step3_effect:
  assumes "step3_pack os a root out PKGS st = (r, st')"
  shows "\<exists>evs m. trace st' = trace st @ evs \<and> m \<le> length PKGS
     \<and> map fst (spawns evs) = map (pack_cmd a root out) (take m PKGS) \<and> opened evs = []
     \<and> (if r = Return () then m = length PKGS \<and> clean evs
                              \<and> results st' = map (new_record root) PKGS
        else 0 < m \<and> fails r evs
             \<and> results st' = map (new_record root) (take (m - 1) PKGS))"
proof -
  define st0 where "st0 = (print (CHR 0x0A # ''[3/5] Packing NuGet packages...'') st)\<lparr>results := []\<rparr>"
  define h where "h = Print (CHR 0x0A # ''[3/5] Packing NuGet packages...'')"
  have st0: "trace st0 = trace st @ [h]" "results st0 = []"
    by (simp_all add: st0_def h_def print_def)
  from assms have "spawn_loop os root (\<lambda>p. Some (''  Packing '' @ stem (truediv root p) @ ''...''))
       (pack_cmd a root out) (\<lambda>p rs. rs @ [new_record root p]) PKGS st0 = (r, st')"
    by (simp add: step3_pack_def st0_def pack_loop_spawn_loop)
  from spawn_loop_effect [OF this] obtain evs m where
    e: "trace st' = trace st0 @ evs" "m \<le> length PKGS"
       "map fst (spawns evs) = map (pack_cmd a root out) (take m PKGS)" "opened evs = []"
       "(if r = Return () then m = length PKGS \<and> clean evs
            \<and> results st' = foldl (\<lambda>rs x. rs @ [new_record root x]) (results st0) PKGS
         else 0 < m \<and> fails r evs
            \<and> results st' = foldl (\<lambda>rs x. rs @ [new_record root x]) (results st0) (take (m - 1) PKGS))"
    by blast
  have "fails r evs \<Longrightarrow> fails r (h # evs)"
    using fails_prepend [of "[h]" r evs] by (simp add: h_def)
  with e st0 show ?thesis
    by (intro exI [of _ "h # evs"] exI [of _ m])
       (auto simp: foldl_snoc_records h_def split: if_splits)
qed

lemma step4_effect:
  assumes "step4_verify os out st = (r, st')"
  shows "\<exists>evs k. trace st' = trace st @ evs \<and> k \<le> length (verify_files os out (world st))
     \<and> spawns evs = [] \<and> opened evs = take k (verify_files os out (world st))
     \<and> results st' = results st \<and> world st' = world st
     \<and> (if r = Return () then k = length (verify_files os out (world st))
        else 0 < k \<and> (\<exists>e. r = Raise e
               \<and> zip_namelist os (verify_files os out (world st) ! (k - 1)) (world st) = Inl e))"
proof -
  define st1 where "st1 = print (CHR 0x0A # ''[4/5] Verifying packages...'') st"
  have st1: "trace st1 = trace st @ [Print (CHR 0x0A # ''[4/5] Verifying packages...'')]"
    "results st1 = results st" "world st1 = world st"
    by (simp_all add: st1_def print_def)
  from assms have "verify_loop os (verify_files os out (world st)) st1 = (r, st')"
    by (simp add: step4_verify_def Let_def st1_def verify_files_def print_def)
  from verify_loop_effect [OF this] obtain evs k where
    "trace st' = trace st1 @ evs" "k \<le> length (verify_files os out (world st))" "spawns evs = []"
    "opened evs = take k (verify_files os out (world st))" "results st' = results st1"
    "world st' = world st1"
    "(if r = Return () then k = length (verify_files os out (world st))
      else 0 < k \<and> (\<exists>e. r = Raise e
             \<and> zip_namelist os (verify_files os out (world st) ! (k - 1)) (world st1) = Inl e))"
    by blast
  with st1 show ?thesis
    by (intro exI [of _ "Print (CHR 0x0A # ''[4/5] Verifying packages...'') # evs"] exI [of _ k])
       (auto split: if_splits)
qed

lemma step5_unfold:
  "\<not> sign a \<Longrightarrow> step5_sign os a root out st = (Return (), st)"
  "sign a \<Longrightarrow> falsy (cert_path a) \<Longrightarrow> step5_sign os a root out st =
     (SysExit 1, print ''  ERROR: --cert-path required for signing''
                   (print (CHR 0x0A # ''[4.5/5] Signing packages...'') st))"
  "sign a \<Longrightarrow> cert_path a = Some cert \<Longrightarrow> cert \<noteq> [] \<Longrightarrow> step5_sign os a root out st =
     sign_loop os a root cert (sign_files os out (world st))
       (print (CHR 0x0A # ''[4.5/5] Signing packages...'') st)"
  by (auto simp: step5_sign_def falsy_def Let_def sign_files_def print_def split: option.splits)

lemma step6_unfold:
  "\<not> publish a \<Longrightarrow> step6_publish os a root out st =
     (Return (), print (CHR 0x0A # ''[5/5] Skipping publish (dry-run mode). Use --publish to push to NuGet.'') st)"
  "publish a \<Longrightarrow> falsy (api_key a) \<Longrightarrow> step6_publish os a root out st =
     (SysExit 1, print ''  ERROR: --api-key required for publishing''
                   (print (CHR 0x0A # ''[5/5] Publishing to NuGet...'') st))"
  "publish a \<Longrightarrow> api_key a = Some key \<Longrightarrow> key \<noteq> [] \<Longrightarrow> step6_publish os a root out st =
     publish_loop os root key (sign_files os out (world st))
       (print (CHR 0x0A # ''[5/5] Publishing to NuGet...'') st)"
  by (auto simp: step6_publish_def falsy_def Let_def sign_files_def print_def split: option.splits)

lemma falsy_cases: "falsy x \<or> (\<exists>s. x = Some s \<and> s \<noteq> [])"
  by (cases x) (auto simp: falsy_def)

lemma print_rows_effect:
  "trace (print_rows rs st) = trace st @ map (\<lambda>r. Print (summary_row r)) rs
   \<and> results (print_rows rs st) = results st \<and> world (print_rows rs st) = world st"
  by (induction rs arbitrary: st) (simp_all add: print_def)

lemma summary_effect:
  "\<exists>evs. summary st = (Return (), st\<lparr>trace := trace st @ evs\<rparr>) \<and> spawns evs = [] \<and> opened evs = []
     \<and> map (\<lambda>r. Print (summary_row r)) (results st) = butlast (drop 5 evs)"
proof -
  define evs where "evs = [Print (CHR 0x0A # replicate 60 CHR ''=''), Print ''SUMMARY'',
     Print (replicate 60 CHR ''=''),
     Print (ljust 55 ''Package'' @ '' '' @ rjust 5 ''Pack'' @ '' '' @ rjust 5 ''Sign'' @ '' '' @ rjust 5 ''Push''),
     Print (replicate 75 CHR ''-'')] @ map (\<lambda>r. Print (summary_row r)) (results st) @ [Print []]"
  have sp: "\<And>rs. spawns (map (\<lambda>r. Print (summary_row r)) rs) = []"
    "\<And>rs. opened (map (\<lambda>r. Print (summary_row r)) rs) = []"
    subgoal for rs by (induction rs) simp_all
    subgoal for rs by (induction rs) simp_all
    done
  have "summary st = (Return (), st\<lparr>trace := trace st @ evs\<rparr>)"
    unfolding summary_def Let_def evs_def
    by (simp add: print_def print_rows_effect)
  moreover have "spawns evs = []" "opened evs = []" by (simp_all add: evs_def sp)
  moreover have "map (\<lambda>r. Print (summary_row r)) (results st) = butlast (drop 5 evs)"
    by (simp add: evs_def butlast_append)
  ultimately show ?thesis by blast
qed

section \<open>What every step keeps\<close>

lemma growsI:
  "trace st' = trace st @ evs \<Longrightarrow> list_all \<phi> (map fst (spawns evs)) \<Longrightarrow> seg r evs
     \<Longrightarrow> (list_all \<psi> (results st) \<Longrightarrow> list_all \<psi> (results st')) \<Longrightarrow> grows \<phi> \<psi> st r st'"
  unfolding grows_def by blast

lemma grows_trans:
  assumes "grows \<phi> \<psi> st (Return ()) s1" and "grows \<phi> \<psi> s1 r st'"
  shows "grows \<phi> \<psi> st r st'"
proof -
  from assms(1) obtain e1 where e1: "trace s1 = trace st @ e1" "list_all \<phi> (map fst (spawns e1))"
    "seg (Return ()) e1" "list_all \<psi> (results st) \<longrightarrow> list_all \<psi> (results s1)"
    unfolding grows_def by blast
  from assms(2) obtain e2 where e2: "trace st' = trace s1 @ e2" "list_all \<phi> (map fst (spawns e2))"
    "seg r e2" "list_all \<psi> (results s1) \<longrightarrow> list_all \<psi> (results st')"
    unfolding grows_def by blast
  from e1(3) have "clean e1" by (simp add: seg_def)
  from seg_prepend [OF this e2(3)] e1 e2 show ?thesis
    by (intro growsI [of _ _ "e1 @ e2"]) simp_all
qed

lemma keepsI: "(\<And>st r st'. f st = (r, st') \<Longrightarrow> grows \<phi> \<psi> st (status r) st') \<Longrightarrow> keeps \<phi> \<psi> f"
  by (simp add: keeps_def)

lemma keepsD: "keeps \<phi> \<psi> f \<Longrightarrow> f st = (r, st') \<Longrightarrow> grows \<phi> \<psi> st (status r) st'"
  by (simp add: keeps_def)

lemma keeps_bind:
  assumes m: "keeps \<phi> \<psi> m" and f: "\<And>x. keeps \<phi> \<psi> (f x)"
  shows "keeps \<phi> \<psi> (bind_res m f)"
proof (rule keepsI)
  fix st r st' assume "bind_res m f st = (r, st')"
  then show "grows \<phi> \<psi> st (status r) st'"
  proof (cases rule: bind_res_cases)
    case (ret x s1)
    from keepsD [OF m ret(1)] keepsD [OF f ret(2)] show ?thesis
      by (auto intro: grows_trans)
  next
    case (abort r0)
    from keepsD [OF m abort(1)] abort(2) show ?thesis by simp
  qed
qed





lemma keeps_print_run:
  assumes "\<phi> c"
  shows "keeps \<phi> \<psi> (\<lambda>st. run os c cwd True (print h st))"
proof (rule keepsI)
  fix st r st' assume "run os c cwd True (print h st) = (r, st')"
  from print_run_effect [OF this] obtain out where
    e: "trace st' = trace st @ [Print h, Print (echo c), Spawn c out] @ run_tail out"
       "status r = run_status out" "results st' = results st" by blast
  have "seg (run_status out) ([Print h, Print (echo c)] @ Spawn c out # run_tail out)"
    by (rule seg_run) simp
  with e assms show "grows \<phi> \<psi> st (status r) st'"
    by (intro growsI [of _ _ "[Print h, Print (echo c), Spawn c out] @ run_tail out"]) simp_all
qed

lemma keeps_step1: "\<phi> restore_cmd \<Longrightarrow> keeps \<phi> \<psi> (step1_restore os root)"
  using keeps_print_run [of \<phi> restore_cmd \<psi> os "Some root"]
  by (simp add: step1_restore_def [abs_def])

lemma keeps_step2: "\<phi> build_cmd \<Longrightarrow> keeps \<phi> \<psi> (step2_build os root)"
  using keeps_print_run [of \<phi> build_cmd \<psi> os "Some root"]
  by (simp add: step2_build_def [abs_def])

lemma keeps_prints:
  assumes "\<And>st. \<exists>evs. f st = (Return x, st\<lparr>trace := trace st @ evs\<rparr>) \<and> spawns evs = []"
  shows "keeps \<phi> \<psi> f"
proof (rule keepsI)
  fix st r st' assume a: "f st = (r, st')"
  from assms [of st] obtain evs where "f st = (Return x, st\<lparr>trace := trace st @ evs\<rparr>)"
    "spawns evs = []" by blast
  with a show "grows \<phi> \<psi> st (status r) st'"
    by (intro growsI [of _ _ evs]) (auto simp: seg_def clean_def)
qed

lemma keeps_banner: "keeps \<phi> \<psi> (\<lambda>st. (Return (), banner a st))"
  by (rule keeps_prints)
     (rule exI [of _ "[Print (CHR 0x0A # replicate 60 CHR ''=''),
          Print (''WorkflowForge Package Publisher v'' @ version a),
          Print (''Mode: '' @ (if publish a then ''PUBLISH'' else ''DRY RUN'')),
          Print (''Sign: '' @ (if sign a then ''Yes'' else ''No'')),
          Print (replicate 60 CHR ''='' @ [CHR 0x0A])]"], simp add: banner_def print_def)

lemma keeps_summary: "keeps \<phi> \<psi> summary"
proof (rule keeps_prints)
  fix st :: "'a state"
  from summary_effect [of st]
  show "\<exists>evs. summary st = (Return (), st\<lparr>trace := trace st @ evs\<rparr>) \<and> spawns evs = []" by blast
qed

lemma keeps_mkdir: "keeps \<phi> \<psi> (make_output_dir os out)"
proof (rule keepsI)
  fix st r st' assume "make_output_dir os out st = (r, st')"
  then have "trace st' = trace st" "results st' = results st"
    by (auto simp: make_output_dir_def split: prod.splits option.splits)
  then show "grows \<phi> \<psi> st (status r) st'"
    by (intro growsI [of _ _ "[]"]) (simp_all add: seg_def)
qed

lemma keeps_spawn_loop:
  assumes c: "\<And>x. \<phi> (cmd x)" and u: "\<And>x rs. list_all \<psi> rs \<Longrightarrow> list_all \<psi> (upd x rs)"
  shows "keeps \<phi> \<psi> (spawn_loop os root hdr cmd upd xs)"
proof (rule keepsI)
  fix st r st' assume "spawn_loop os root hdr cmd upd xs st = (r, st')"
  from spawn_loop_effect [OF this] obtain evs m where
    e: "trace st' = trace st @ evs" "map fst (spawns evs) = map cmd (take m xs)"
       "(if r = Return () then m = length xs \<and> clean evs
             \<and> results st' = foldl (\<lambda>rs x. upd x rs) (results st) xs
         else 0 < m \<and> fails r evs
             \<and> results st' = foldl (\<lambda>rs x. upd x rs) (results st) (take (m - 1) xs))"
    by blast
  have fl: "\<And>ys rs. list_all \<psi> rs \<Longrightarrow> list_all \<psi> (foldl (\<lambda>rs x. upd x rs) rs ys)"
    subgoal for ys rs by (induction ys arbitrary: rs) (simp_all add: u)
    done
  from e(3) have s: "seg r evs" by (auto simp: seg_def split: if_splits)
  from e(3) fl have p: "list_all \<psi> (results st) \<Longrightarrow> list_all \<psi> (results st')"
    by (auto split: if_splits)
  from e(1) e(2) s p c show "grows \<phi> \<psi> st (status r) st'"
    by (intro growsI [of _ _ evs]) (simp_all add: list_all_iff)
qed

lemma keeps_step3:
  assumes "\<And>p. \<phi> (pack_cmd a root out p)" and "\<And>p. \<psi> (new_record root p)"
  shows "keeps \<phi> \<psi> (step3_pack os a root out PKGS)"
proof (rule keepsI)
  fix st r st' assume "step3_pack os a root out PKGS st = (r, st')"
  from step3_effect [OF this] obtain evs m where
    e: "trace st' = trace st @ evs" "map fst (spawns evs) = map (pack_cmd a root out) (take m PKGS)"
       "(if r = Return () then m = length PKGS \<and> clean evs
                              \<and> results st' = map (new_record root) PKGS
        else 0 < m \<and> fails r evs
             \<and> results st' = map (new_record root) (take (m - 1) PKGS))" by blast
  from e(3) have s: "seg r evs" by (auto simp: seg_def split: if_splits)
  from e(3) assms(2) have p: "list_all \<psi> (results st')"
    by (auto simp: list_all_iff split: if_splits)
  from e(1) e(2) s p assms(1) show "grows \<phi> \<psi> st (status r) st'"
    by (intro growsI [of _ _ evs]) (simp_all add: list_all_iff)
qed

lemma keeps_step4: "keeps \<phi> \<psi> (step4_verify os out)"
proof (rule keepsI)
  fix st r st' assume "step4_verify os out st = (r, st')"
  from step4_effect [OF this] obtain evs where
    "trace st' = trace st @ evs" "spawns evs = []" "results st' = results st" by blast
  then show "grows \<phi> \<psi> st (status r) st'"
    by (intro growsI [of _ _ evs]) (simp_all add: seg_def clean_def)
qed

lemma keeps_exit_prints:
  "keeps \<phi> \<psi> (\<lambda>st. (SysExit n, print l2 (print l1 st)))"
  by (rule keepsI, rule growsI [of _ _ "[Print l1, Print l2]"])
     (auto simp: print_def seg_def)

lemma list_all_mark_signed:
  "(\<And>r. \<psi> r \<Longrightarrow> \<psi> (r\<lparr>signed := True\<rparr>)) \<Longrightarrow> list_all \<psi> rs \<Longrightarrow> list_all \<psi> (mark_signed f rs)"
  by (induction rs) auto

lemma list_all_mark_published:
  "(\<And>r. \<psi> r \<Longrightarrow> \<psi> (r\<lparr>published := True\<rparr>)) \<Longrightarrow> list_all \<psi> rs \<Longrightarrow> list_all \<psi> (mark_published f rs)"
  by (induction rs) auto

lemma keeps_after_print:
  assumes "keeps \<phi> \<psi> f"
  shows "keeps \<phi> \<psi> (\<lambda>st. f (print h st))"
proof (rule keepsI)
  fix st r st' assume "f (print h st) = (r, st')"
  from keepsD [OF assms this] have "grows \<phi> \<psi> (print h st) (status r) st'" .
  moreover have "grows \<phi> \<psi> st (Return ()) (print h st)"
    by (rule growsI [of _ _ "[Print h]"]) (simp_all add: print_def seg_def)
  ultimately show "grows \<phi> \<psi> st (status r) st'" by (rule grows_trans [rotated])
qed

lemma keeps_step5:
  assumes "sign a \<Longrightarrow> \<not> falsy (cert_path a) \<Longrightarrow>
             (\<forall>cert f. \<phi> (sign_cmd a cert f)) \<and> (\<forall>r. \<psi> r \<longrightarrow> \<psi> (r\<lparr>signed := True\<rparr>))"
  shows "keeps \<phi> \<psi> (step5_sign os a root out)"
proof (cases "sign a")
  case False
  then have "step5_sign os a root out = (\<lambda>st. (Return (), st))"
    by (intro ext) (simp add: step5_unfold)
  moreover have "keeps \<phi> \<psi> (\<lambda>st :: 'a state. (Return (), st))"
    by (rule keeps_prints) (rule exI [of _ "[]"], simp)
  ultimately show ?thesis by simp
next
  case True
  show ?thesis
  proof (cases "falsy (cert_path a)")
    case f: True
    with True have "step5_sign os a root out = (\<lambda>st. (SysExit 1, print ''  ERROR: --cert-path required for signing''
                   (print (CHR 0x0A # ''[4.5/5] Signing packages...'') st)))"
      by (intro ext) (simp add: step5_unfold)
    then show ?thesis by (simp add: keeps_exit_prints)
  next
    case f: False
    then obtain cert where c: "cert_path a = Some cert" "cert \<noteq> []"
      using falsy_cases [of "cert_path a"] by blast
    have k: "\<And>xs. keeps \<phi> \<psi> (spawn_loop os root (\<lambda>p. None) (sign_cmd a cert)
        (\<lambda>p. mark_signed (path_name p)) xs)"
      using assms [OF True f] by (intro keeps_spawn_loop) (auto intro: list_all_mark_signed)
    show ?thesis
    proof (rule keepsI)
      fix st r st' assume "step5_sign os a root out st = (r, st')"
      then have "spawn_loop os root (\<lambda>p. None) (sign_cmd a cert)
        (\<lambda>p. mark_signed (path_name p)) (sign_files os out (world st)) (print (CHR 0x0A # ''[4.5/5] Signing packages...'') st) = (r, st')"
        using True c by (simp add: step5_unfold sign_loop_spawn_loop)
      from keepsD [OF keeps_after_print [OF k] this] show "grows \<phi> \<psi> st (status r) st'" .
    qed
  qed
qed

lemma keeps_step6:
  assumes "publish a \<Longrightarrow> \<not> falsy (api_key a) \<Longrightarrow>
             (\<forall>key f. \<phi> (push_cmd key f)) \<and> (\<forall>r. \<psi> r \<longrightarrow> \<psi> (r\<lparr>published := True\<rparr>))"
  shows "keeps \<phi> \<psi> (step6_publish os a root out)"
proof (cases "publish a")
  case False
  then have "step6_publish os a root out = (\<lambda>st. (Return (), print (CHR 0x0A # ''[5/5] Skipping publish (dry-run mode). Use --publish to push to NuGet.'') st))"
    by (intro ext) (simp add: step6_unfold)
  moreover have "keeps \<phi> \<psi> (\<lambda>st :: 'a state. (Return (), print (CHR 0x0A # ''[5/5] Skipping publish (dry-run mode). Use --publish to push to NuGet.'') st))"
    by (rule keeps_prints, rule exI [of _ "[Print (CHR 0x0A # ''[5/5] Skipping publish (dry-run mode). Use --publish to push to NuGet.'')]"])
       (simp add: print_def)
  ultimately show ?thesis by simp
next
  case True
  show ?thesis
  proof (cases "falsy (api_key a)")
    case f: True
    with True have "step6_publish os a root out = (\<lambda>st. (SysExit 1, print ''  ERROR: --api-key required for publishing''
                   (print (CHR 0x0A # ''[5/5] Publishing to NuGet...'') st)))"
      by (intro ext) (simp add: step6_unfold)
    then show ?thesis by (simp add: keeps_exit_prints)
  next
    case f: False
    then obtain key where c: "api_key a = Some key" "key \<noteq> []"
      using falsy_cases [of "api_key a"] by blast
    have k: "\<And>xs. keeps \<phi> \<psi> (spawn_loop os root (\<lambda>p. Some (''  Publishing '' @ path_name p @ ''...''))
        (push_cmd key) (\<lambda>p. mark_published (path_name p)) xs)"
      using assms [OF True f] by (intro keeps_spawn_loop) (auto intro: list_all_mark_published)
    show ?thesis
    proof (rule keepsI)
      fix st r st' assume "step6_publish os a root out st = (r, st')"
      then have "spawn_loop os root (\<lambda>p. Some (''  Publishing '' @ path_name p @ ''...''))
        (push_cmd key) (\<lambda>p. mark_published (path_name p)) (sign_files os out (world st)) (print (CHR 0x0A # ''[5/5] Publishing to NuGet...'') st) = (r, st')"
        using True c by (simp add: step6_unfold publish_loop_spawn_loop)
      from keepsD [OF keeps_after_print [OF k] this] show "grows \<phi> \<psi> st (status r) st'" .
    qed
  qed
qed

section \<open>Globbing and sorting\<close>

lemma fnmatch_star: "fnmatch n (CHR ''*'' # ps) \<longleftrightarrow> (\<exists>a b. n = a @ b \<and> fnmatch b ps)"
proof (induction n)
  case Nil
  then show ?case by (cases ps) auto
next
  case (Cons c cs)
  show ?case
  proof
    assume "fnmatch (c # cs) (CHR ''*'' # ps)"
    then have "fnmatch (c # cs) ps \<or> fnmatch cs (CHR ''*'' # ps)" by simp
    then show "\<exists>a b. c # cs = a @ b \<and> fnmatch b ps"
    proof
      assume "fnmatch (c # cs) ps"
      then show ?thesis by (intro exI [of _ "[]"] exI [of _ "c # cs"]) simp
    next
      assume "fnmatch cs (CHR ''*'' # ps)"
      with Cons.IH obtain a b where "cs = a @ b" "fnmatch b ps" by blast
      then show ?thesis by (intro exI [of _ "c # a"] exI [of _ b]) simp
    qed
  next
    assume "\<exists>a b. c # cs = a @ b \<and> fnmatch b ps"
    then obtain a b where ab: "c # cs = a @ b" "fnmatch b ps" by blast
    show "fnmatch (c # cs) (CHR ''*'' # ps)"
    proof (cases a)
      case Nil
      with ab have "fnmatch (c # cs) ps" by simp
      then show ?thesis by simp
    next
      case (Cons a0 as)
      with ab have "cs = as @ b" by simp
      with ab(2) Cons.IH have "fnmatch cs (CHR ''*'' # ps)" by blast
      then show ?thesis by simp
    qed
  qed
qed

lemma fnmatch_char:
  "p \<noteq> CHR ''*'' \<Longrightarrow> fnmatch n (p # ps) \<longleftrightarrow> (\<exists>t. n = p # t \<and> fnmatch t ps)"
  by (cases n) auto

lemma fnmatch_literal: "CHR ''*'' \<notin> set ps \<Longrightarrow> fnmatch n ps \<longleftrightarrow> n = ps"
  by (induction n ps rule: fnmatch.induct) auto

lemma fnmatch_nupkg: "fnmatch n ''*.nupkg'' \<longleftrightarrow> (\<exists>a. n = a @ ''.nupkg'')"
  by (simp add: fnmatch_star fnmatch_literal)

lemma fnmatch_any_nupkg: "fnmatch n ''*.*nupkg'' \<longleftrightarrow> (\<exists>a b. n = a @ ''.'' @ b @ ''nupkg'')"
proof -
  have "fnmatch n ''*.*nupkg'' \<longleftrightarrow> (\<exists>a b. n = a @ b \<and> fnmatch b ''.*nupkg'')"
    by (rule fnmatch_star)
  also have "\<dots> \<longleftrightarrow> (\<exists>a t. n = a @ CHR ''.'' # t \<and> fnmatch t ''*nupkg'')"
    by (auto simp: fnmatch_char)
  also have "\<dots> \<longleftrightarrow> (\<exists>a t. n = a @ CHR ''.'' # t \<and> (\<exists>b c. t = b @ c \<and> fnmatch c ''nupkg''))"
    by (simp only: fnmatch_star)
  also have "\<dots> \<longleftrightarrow> (\<exists>a b. n = a @ ''.'' @ b @ ''nupkg'')"
    by (auto simp: fnmatch_literal)
  finally show ?thesis .
qed

lemma nupkg_is_any_nupkg: "fnmatch n ''*.nupkg'' \<Longrightarrow> fnmatch n ''*.*nupkg''"
proof -
  assume "fnmatch n ''*.nupkg''"
  then obtain a where "n = a @ ''.nupkg''" by (auto simp: fnmatch_nupkg)
  then have "n = a @ ''.'' @ [] @ ''nupkg''" by simp
  then show ?thesis unfolding fnmatch_any_nupkg by blast
qed

lemma snoc_le: "(ps @ [x] :: 'a :: linorder list) \<le> ps @ [y] \<longleftrightarrow> x \<le> y"
  by (induction ps) auto

lemma cparts_le: "cparts (make_child d x) \<le> cparts (make_child d y) \<longleftrightarrow> x \<le> y"
  by (simp add: cparts_def make_child_def snoc_le)

lemma insort_make_child:
  "insort_key cparts (make_child d x) (map (make_child d) ys) = map (make_child d) (insort x ys)"
  by (induction ys) (simp_all add: cparts_le)

lemma sorted_paths_children:
  "sorted_paths (map (make_child d) ns) = map (make_child d) (sort ns)"
  unfolding sorted_paths_def by (induction ns) (simp_all add: insort_make_child)

lemma path_name_make_child [simp]: "path_name (make_child d n) = n"
  by (simp add: path_name_def make_child_def)

lemma inj_make_child: "inj (make_child d)"
  by (rule injI) (simp add: make_child_def)

lemma verify_files_eq:
  "verify_files os out w
     = map (make_child out) (sort (filter (\<lambda>n. fnmatch n ''*.nupkg'') (iterdir os out w)))"
  by (simp add: verify_files_def glob_def sorted_paths_children)

lemma sign_files_eq:
  "sign_files os out w
     = map (make_child out) (sort (filter (\<lambda>n. fnmatch n ''*.*nupkg'') (iterdir os out w)))"
  by (simp add: sign_files_def glob_def sorted_paths_children)

lemma files_names:
  "map path_name (verify_files os out w) = sort (filter (\<lambda>n. fnmatch n ''*.nupkg'') (iterdir os out w))"
  "map path_name (sign_files os out w) = sort (filter (\<lambda>n. fnmatch n ''*.*nupkg'') (iterdir os out w))"
  by (simp_all add: verify_files_eq sign_files_eq comp_def)

lemma files_distinct:
  "distinct (iterdir os out w) \<Longrightarrow> distinct (verify_files os out w)"
  "distinct (iterdir os out w) \<Longrightarrow> distinct (sign_files os out w)"
  by (simp_all add: verify_files_eq sign_files_eq distinct_map inj_on_subset [OF inj_make_child])

lemma verify_files_subset: "set (verify_files os out w) \<subseteq> set (sign_files os out w)"
  by (auto simp: verify_files_eq sign_files_eq nupkg_is_any_nupkg)

section \<open>The steps up to the packing\<close>

lemma setup_steps_effect:
  assumes "setup_steps os a root out st = (r, st')"
  shows "\<exists>evs. trace st' = trace st @ evs \<and> opened evs = [] \<and> results st' = results st
     \<and> seg (status r) evs
     \<and> (if status r = Return () then map fst (spawns evs) = [restore_cmd, build_cmd]
        else length (spawns evs) \<le> 2 \<and> set (map fst (spawns evs)) \<subseteq> {restore_cmd, build_cmd})"
proof -
  from assms have "bind_res (make_output_dir os out) (\<lambda>u.
     bind_res (\<lambda>st. (Return (), banner a st)) (\<lambda>u.
     bind_res (step1_restore os root) (\<lambda>r. step2_build os root))) st = (r, st')"
    by (simp add: setup_steps_def)
  then show ?thesis
  proof (cases rule: bind_res_cases)
    case (abort r0)
    then have "trace st' = trace st" "results st' = results st"
      by (auto simp: make_output_dir_def split: prod.splits option.splits)
    with abort show ?thesis by (intro exI [of _ "[]"]) (simp add: seg_def)
  next
    case (ret u s0)
    then have s0: "trace s0 = trace st" "results s0 = results st"
      by (auto simp: make_output_dir_def split: prod.splits option.splits)
    from ret(2) show ?thesis
    proof (cases rule: bind_res_cases)
      case (abort r0)
      then show ?thesis by simp
    next
      case (ret u' sb)
      define bn where "bn = [Print (CHR 0x0A # replicate 60 CHR ''=''),
          Print (''WorkflowForge Package Publisher v'' @ version a),
          Print (''Mode: '' @ (if publish a then ''PUBLISH'' else ''DRY RUN'')),
          Print (''Sign: '' @ (if sign a then ''Yes'' else ''No'')),
          Print (replicate 60 CHR ''='' @ [CHR 0x0A])]"
      have bn: "spawns bn = []" "opened bn = []" "clean bn" by (simp_all add: bn_def)
      from ret(1) s0 have sb: "trace sb = trace st @ bn" "results sb = results st"
        by (auto simp: banner_def print_def bn_def)
      from ret(2) show ?thesis
      proof (cases rule: bind_res_cases)
        case (abort r0)
        from step1_effect [OF abort(1)] obtain h out1 where
          e: "trace st' = trace sb @ [Print h, Print (echo restore_cmd), Spawn restore_cmd out1] @ run_tail out1"
             "status r0 = run_status out1" "results st' = results sb" by blast
        have "seg (run_status out1) ((bn @ [Print h, Print (echo restore_cmd)]) @ Spawn restore_cmd out1 # run_tail out1)"
          by (rule seg_run) (simp add: bn)
        with e sb abort bn show ?thesis
          by (intro exI [of _ "bn @ [Print h, Print (echo restore_cmd), Spawn restore_cmd out1] @ run_tail out1"])
             simp
      next
        case (ret x1 s1)
        from step1_effect [OF ret(1)] obtain h out1 where
          e1: "trace s1 = trace sb @ [Print h, Print (echo restore_cmd), Spawn restore_cmd out1] @ run_tail out1"
             "status (Return x1) = run_status out1" "results s1 = results sb" by blast
        from e1(2) have ok1: "succeeded out1" by (metis run_status_Return status.simps(1))
        from step2_effect [OF ret(2)] obtain h2 out2 where
          e2: "trace st' = trace s1 @ [Print h2, Print (echo build_cmd), Spawn build_cmd out2] @ run_tail out2"
             "status r = run_status out2" "results st' = results s1" by blast
        define pre where "pre = bn @ [Print h, Print (echo restore_cmd), Spawn restore_cmd out1, Print h2, Print (echo build_cmd)]"
        have pre: "clean pre" "spawns pre = [(restore_cmd, out1)]" "opened pre = []"
          using ok1 bn by (simp_all add: pre_def)
        have tr: "trace st' = trace st @ (pre @ Spawn build_cmd out2 # run_tail out2)"
          using e1 e2 sb ok1 by (simp add: pre_def succeeded_run_tail)
        have "seg (run_status out2) (pre @ Spawn build_cmd out2 # run_tail out2)"
          by (rule seg_run) (rule pre)
        with tr e1 e2 sb pre show ?thesis
          by (intro exI [of _ "pre @ Spawn build_cmd out2 # run_tail out2"]) simp
      qed
    qed
  qed
qed

lemma Spawn_in_spawns: "Spawn c out \<in> set evs \<longleftrightarrow> (c, out) \<in> set (spawns evs)"
  by (induction evs rule: spawns.induct) auto

lemma ZipOpen_in_opened: "ZipOpen p z \<in> set evs \<Longrightarrow> p \<in> set (opened evs)"
  by (induction evs rule: opened.induct) auto

lemma clean_nth: "clean evs \<Longrightarrow> i < length (spawns evs) \<Longrightarrow> succeeded (snd (spawns evs ! i))"
  by (simp add: clean_def list_all_length)

lemma clean_iff: "clean evs \<longleftrightarrow> (\<forall>c out. Spawn c out \<in> set evs \<longrightarrow> succeeded out)"
  by (auto simp: clean_def list_all_iff Spawn_in_spawns)

lemma seg_unsucceeded:
  assumes s: "seg r evs" and i: "i < length (spawns evs)"
    and n: "\<not> succeeded (snd (spawns evs ! i))"
  shows "Suc i = length (spawns evs) \<and> r = run_status (snd (spawns evs ! i))
     \<and> (\<exists>pre. clean pre \<and> evs = pre @ Spawn (fst (spawns evs ! i)) (snd (spawns evs ! i))
                                    # run_tail (snd (spawns evs ! i)))"
proof -
  from clean_nth [OF _ i] n have "\<not> clean evs" by blast
  with s have "fails r evs" by (auto simp: seg_def split: if_splits)
  then obtain pre c out where e: "evs = pre @ Spawn c out # run_tail out" "clean pre"
    "\<not> succeeded out" "r = run_status out" unfolding fails_def by blast
  have sp: "spawns evs = spawns pre @ [(c, out)]" by (simp add: e(1))
  have "i = length (spawns pre)"
  proof (rule ccontr)
    assume "i \<noteq> length (spawns pre)"
    with i sp have "i < length (spawns pre)" by simp
    with clean_nth [OF e(2) this] n sp show False by (simp add: nth_append)
  qed
  with sp e show ?thesis by auto
qed



lemma first_steps_effect:
  assumes "first_steps os a PKGS root out st = (r, st')"
  shows "\<exists>evs. trace st' = trace st @ evs \<and> opened evs = []
     \<and> list_all (\<lambda>c. \<not> is_sign c \<and> \<not> is_push c) (map fst (spawns evs)) \<and> seg r evs
     \<and> (if r = Return ()
        then map fst (spawns evs) = restore_cmd # build_cmd # map (pack_cmd a root out) PKGS
             \<and> results st' = map (new_record root) PKGS
        else length (spawns evs) \<le> 2
             \<or> (\<exists>m. 0 < m \<and> m \<le> length PKGS
                  \<and> map fst (spawns evs)
                      = restore_cmd # build_cmd # map (pack_cmd a root out) (take m PKGS)
                  \<and> results st' = map (new_record root) (take (m - 1) PKGS)))"
proof -
  from assms have "bind_res (setup_steps os a root out) (\<lambda>r. step3_pack os a root out PKGS) st
      = (r, st')" by (simp add: first_steps_def)
  then show ?thesis
  proof (cases rule: bind_res_cases)
    case (abort r0)
    from abort have nr: "status r0 = r" "status r0 \<noteq> Return ()" "r \<noteq> Return ()" by simp_all
    from setup_steps_effect [OF abort(1)] obtain evs where
      e0: "trace st' = trace st @ evs" "opened evs = []" "seg (status r0) evs"
         "(if status r0 = Return () then map fst (spawns evs) = [restore_cmd, build_cmd]
           else length (spawns evs) \<le> 2 \<and> set (map fst (spawns evs)) \<subseteq> {restore_cmd, build_cmd})"
      by blast
    from e0(4) nr(2) have l: "length (spawns evs) \<le> 2"
      and ss: "set (map fst (spawns evs)) \<subseteq> {restore_cmd, build_cmd}" by simp_all
    have "\<And>c. c \<in> set (map fst (spawns evs)) \<Longrightarrow> \<not> is_sign c \<and> \<not> is_push c"
    proof -
      fix c assume "c \<in> set (map fst (spawns evs))"
      with ss have "c = restore_cmd \<or> c = build_cmd" by blast
      then show "\<not> is_sign c \<and> \<not> is_push c" by (elim disjE) simp_all
    qed
    then have la: "list_all (\<lambda>c. \<not> is_sign c \<and> \<not> is_push c) (map fst (spawns evs))"
      unfolding list_all_iff by blast
    from e0(3) nr(1) have sg: "seg r evs" by simp
    from e0(1,2) la sg l nr(3) show ?thesis by (intro exI [of _ evs]) simp
  next
    case (ret x s1)
    from setup_steps_effect [OF ret(1)] obtain e1 where
      e1': "trace s1 = trace st @ e1" "opened e1 = []" "seg (status (Return x)) e1"
         "(if status (Return x) = Return () then map fst (spawns e1) = [restore_cmd, build_cmd]
           else length (spawns e1) \<le> 2 \<and> set (map fst (spawns e1)) \<subseteq> {restore_cmd, build_cmd})"
      by blast
    then have e1: "trace s1 = trace st @ e1" "opened e1 = []" "clean e1"
          "map fst (spawns e1) = [restore_cmd, build_cmd]"
      by (simp_all add: seg_def)
    from step3_effect [OF ret(2)] obtain e2 m where
      e2: "trace st' = trace s1 @ e2" "m \<le> length PKGS"
          "map fst (spawns e2) = map (pack_cmd a root out) (take m PKGS)" "opened e2 = []"
          "(if r = Return () then m = length PKGS \<and> clean e2
                              \<and> results st' = map (new_record root) PKGS
            else 0 < m \<and> fails r e2
                 \<and> results st' = map (new_record root) (take (m - 1) PKGS))" by blast
    define E where "E = e1 @ e2"
    have sg: "seg r E" unfolding E_def
    proof (cases "r = Return ()")
      case True
      with e2(5) e1(3) show "seg r (e1 @ e2)" by (simp add: seg_def)
    next
      case False
      with e2(5) have "fails r e2" by simp
      from fails_prepend [OF e1(3) this] False show "seg r (e1 @ e2)" by (simp add: seg_def)
    qed
    have la: "list_all (\<lambda>c. \<not> is_sign c \<and> \<not> is_push c) (map fst (spawns E))"
      using e1(4) e2(3) by (simp add: list_all_iff E_def)
    have sp: "map fst (spawns E) = restore_cmd # build_cmd # map (pack_cmd a root out) (take m PKGS)"
      using e1(4) e2(3) by (simp add: E_def)
    have tr: "trace st' = trace st @ E" using e1(1) e2(1) by (simp add: E_def)
    have op: "opened E = []" using e1(2) e2(4) by (simp add: E_def)
    show ?thesis
    proof (cases "r = Return ()")
      case True
      with e2(5) have "results st' = map (new_record root) PKGS" "m = length PKGS" by simp_all
      with True sg la sp tr op show ?thesis by (intro exI [of _ E]) simp
    next
      case False
      with e2(5) have "0 < m" "results st' = map (new_record root) (take (m - 1) PKGS)" by simp_all
      with e2(2) sp have "\<exists>m. 0 < m \<and> m \<le> length PKGS
                  \<and> map fst (spawns E)
                      = restore_cmd # build_cmd # map (pack_cmd a root out) (take m PKGS)
                  \<and> results st' = map (new_record root) (take (m - 1) PKGS)"
        by (intro exI [of _ m]) simp
      with False sg la tr op show ?thesis by (intro exI [of _ E]) simp
    qed
  qed
qed


lemma keeps_archive_steps:
  assumes "sign a \<Longrightarrow> \<not> falsy (cert_path a) \<Longrightarrow>
             (\<forall>cert f. \<phi> (sign_cmd a cert f)) \<and> (\<forall>r. \<psi> r \<longrightarrow> \<psi> (r\<lparr>signed := True\<rparr>))"
    and "publish a \<Longrightarrow> \<not> falsy (api_key a) \<Longrightarrow>
             (\<forall>key f. \<phi> (push_cmd key f)) \<and> (\<forall>r. \<psi> r \<longrightarrow> \<psi> (r\<lparr>published := True\<rparr>))"
  shows "keeps \<phi> \<psi> (archive_steps os a root out)"
  unfolding archive_steps_def
  by (intro keeps_bind keeps_step4 keeps_step5 keeps_step6 keeps_summary assms)

lemma keeps_first_steps:
  assumes "\<phi> restore_cmd" "\<phi> build_cmd" "\<And>p. \<phi> (pack_cmd a root out p)"
    "\<And>p. \<psi> (new_record root p)"
  shows "keeps \<phi> \<psi> (first_steps os a PKGS root out)"
  unfolding first_steps_def setup_steps_def
  by (intro keeps_bind keeps_mkdir keeps_banner keeps_step1 keeps_step2 keeps_step3 assms)

lemma keeps_start:
  assumes "keeps \<phi> \<psi> f" and "f \<lparr>world = w, trace = [], results = []\<rparr> = (r, st)"
  shows "list_all \<phi> (map fst (spawns (trace st))) \<and> seg (status r) (trace st)
     \<and> list_all \<psi> (results st)"
  using keepsD [OF assms] by (auto simp: grows_def)

lemma main_keeps:
  assumes "\<phi> restore_cmd" "\<phi> build_cmd"
    "\<And>p. \<phi> (pack_cmd a (script_root os) (truediv (script_root os) ''packages'') p)"
    "\<And>p. \<psi> (new_record (script_root os) p)"
    "sign a \<Longrightarrow> \<not> falsy (cert_path a) \<Longrightarrow>
             (\<forall>cert f. \<phi> (sign_cmd a cert f)) \<and> (\<forall>r. \<psi> r \<longrightarrow> \<psi> (r\<lparr>signed := True\<rparr>))"
    "publish a \<Longrightarrow> \<not> falsy (api_key a) \<Longrightarrow>
             (\<forall>key f. \<phi> (push_cmd key f)) \<and> (\<forall>r. \<psi> r \<longrightarrow> \<psi> (r\<lparr>published := True\<rparr>))"
    and m: "main os a PKGS w = (r, st)"
  shows "list_all \<phi> (map fst (spawns (trace st))) \<and> seg r (trace st) \<and> list_all \<psi> (results st)"
proof -
  have "keeps \<phi> \<psi> (bind_res (first_steps os a PKGS (script_root os) (truediv (script_root os) ''packages''))
       (\<lambda>u. archive_steps os a (script_root os) (truediv (script_root os) ''packages'')))"
    by (intro keeps_bind keeps_first_steps keeps_archive_steps assms(1-6))
  from keeps_start [OF this m [unfolded main_split]] show ?thesis by simp
qed

section \<open>Concrete runs\<close>

lemma replicate_numeral: "replicate (numeral n) x = x # replicate (pred_numeral n) x"
  by (simp add: numeral_eq_Suc)

lemmas demo_defs = replicate_numeral main_def bind_res_def make_output_dir_def banner_def
  step1_restore_def step2_build_def step3_pack_def step4_verify_def step5_sign_def
  step6_publish_def summary_def run_def print_def demo_os_def demo_run_def demo_zip_def
  demo_args_def ok_def new_record_def pack_cmd_def sign_cmd_def push_cmd_def restore_cmd_def
  build_cmd_def matches_def summary_row_def ljust_def rjust_def strip_def isspace_def stem_def
  truediv_def PurePosixPath_def path_name_def str_path_def make_child_def glob_def
  sorted_paths_def cparts_def less_char_def less_eq_char_def verify_line_def str_nat.simps Let_def

text \<open>The second of three projects fails to pack.\<close>

lemma demo_failing_run:
  "main demo_os demo_args [''p/A.csproj'', ''p/Bad.csproj'', ''p/C.csproj''] [] =
  (SysExit 1,
    \<lparr>world = [''A.1.0.0.nupkg'', ''A.1.0.0.snupkg''],
       trace =
         [Print
           ''\<newline>============================================================'',
          Print ''WorkflowForge Package Publisher v1.0.0'',
          Print ''Mode: PUBLISH'', Print ''Sign: Yes'',
          Print
           ''============================================================\<newline>'',
          Print ''[1/5] Restoring dependencies...'',
          Print ''  > dotnet restore WorkflowForge.sln'',
          Spawn (Argv [''dotnet'', ''restore'', ''WorkflowForge.sln''])
           (Inr \<lparr>returncode = 0, stdout = [], stderr = []\<rparr>),
          Print ''\<newline>[2/5] Building solution...'',
          Print
           ''  > dotnet build WorkflowForge.sln --configuration Release --no-restore'',
          Spawn
           (Argv
             [''dotnet'', ''build'', ''WorkflowForge.sln'',
              ''--configuration'', ''Release'', ''--no-restore''])
           (Inr \<lparr>returncode = 0, stdout = [], stderr = []\<rparr>),
          Print ''\<newline>[3/5] Packing NuGet packages...'',
          Print ''  Packing A...'',
          Print
           ''  > dotnet pack /r/p/A.csproj --configuration Release --no-build -p:PackageVersion=1.0.0 --output /r/packages'',
          Spawn
           (Argv
             [''dotnet'', ''pack'', ''/r/p/A.csproj'', ''--configuration'',
              ''Release'', ''--no-build'', ''-p:PackageVersion=1.0.0'',
              ''--output'', ''/r/packages''])
           (Inr \<lparr>returncode = 0, stdout = [], stderr = []\<rparr>),
          Print ''  Packing Bad...'',
          Print
           ''  > dotnet pack /r/p/Bad.csproj --configuration Release --no-build -p:PackageVersion=1.0.0 --output /r/packages'',
          Spawn
           (Argv
             [''dotnet'', ''pack'', ''/r/p/Bad.csproj'', ''--configuration'',
              ''Release'', ''--no-build'', ''-p:PackageVersion=1.0.0'',
              ''--output'', ''/r/packages''])
           (Inr \<lparr>returncode = 1, stdout = [], stderr = '' pack failed\<newline>''\<rparr>),
          Print ''  ERROR: pack failed''],
       results =
         [\<lparr>name = ''A'', packed = True, signed = False, published = False\<rparr>]\<rparr>)"
  by (simp add: demo_defs)

text \<open>One project, signed and published.\<close>

lemma demo_full_run:
  "main demo_os demo_args [''p/A.csproj''] [] =
  (Return (),
    \<lparr>world = [''A.1.0.0.nupkg'', ''A.1.0.0.snupkg''],
       trace =
         [Print
           ''\<newline>============================================================'',
          Print ''WorkflowForge Package Publisher v1.0.0'',
          Print ''Mode: PUBLISH'', Print ''Sign: Yes'',
          Print
           ''============================================================\<newline>'',
          Print ''[1/5] Restoring dependencies...'',
          Print ''  > dotnet restore WorkflowForge.sln'',
          Spawn (Argv [''dotnet'', ''restore'', ''WorkflowForge.sln''])
           (Inr \<lparr>returncode = 0, stdout = [], stderr = []\<rparr>),
          Print ''\<newline>[2/5] Building solution...'',
          Print
           ''  > dotnet build WorkflowForge.sln --configuration Release --no-restore'',
          Spawn
           (Argv
             [''dotnet'', ''build'', ''WorkflowForge.sln'',
              ''--configuration'', ''Release'', ''--no-restore''])
           (Inr \<lparr>returncode = 0, stdout = [], stderr = []\<rparr>),
          Print ''\<newline>[3/5] Packing NuGet packages...'',
          Print ''  Packing A...'',
          Print
           ''  > dotnet pack /r/p/A.csproj --configuration Release --no-build -p:PackageVersion=1.0.0 --output /r/packages'',
          Spawn
           (Argv
             [''dotnet'', ''pack'', ''/r/p/A.csproj'', ''--configuration'',
              ''Release'', ''--no-build'', ''-p:PackageVersion=1.0.0'',
              ''--output'', ''/r/packages''])
           (Inr \<lparr>returncode = 0, stdout = [], stderr = []\<rparr>),
          Print ''\<newline>[4/5] Verifying packages...'',
          ZipOpen
           \<lparr>anchor = ''/'', parts = [''r'', ''packages'', ''A.1.0.0.nupkg'']\<rparr>
           (Inr [''README.md'', ''lib/x.dll'']),
          Print ''  A.1.0.0.nupkg: OK (2 files)'',
          Print ''\<newline>[4.5/5] Signing packages...'',
          Print
           ''  > dotnet nuget sign /r/packages/A.1.0.0.nupkg --certificate-path c.pfx --timestamper http://timestamp.digicert.com'',
          Spawn
           (Argv
             [''dotnet'', ''nuget'', ''sign'', ''/r/packages/A.1.0.0.nupkg'',
              ''--certificate-path'', ''c.pfx'', ''--timestamper'',
              ''http://timestamp.digicert.com''])
           (Inr \<lparr>returncode = 0, stdout = [], stderr = []\<rparr>),
          Print
           ''  > dotnet nuget sign /r/packages/A.1.0.0.snupkg --certificate-path c.pfx --timestamper http://timestamp.digicert.com'',
          Spawn
           (Argv
             [''dotnet'', ''nuget'', ''sign'', ''/r/packages/A.1.0.0.snupkg'',
              ''--certificate-path'', ''c.pfx'', ''--timestamper'',
              ''http://timestamp.digicert.com''])
           (Inr \<lparr>returncode = 0, stdout = [], stderr = []\<rparr>),
          Print ''\<newline>[5/5] Publishing to NuGet...'',
          Print ''  Publishing A.1.0.0.nupkg...'',
          Print
           ''  > dotnet nuget push /r/packages/A.1.0.0.nupkg --api-key k --source https://api.nuget.org/v3/index.json --skip-duplicate'',
          Spawn
           (Argv
             [''dotnet'', ''nuget'', ''push'', ''/r/packages/A.1.0.0.nupkg'',
              ''--api-key'', ''k'', ''--source'',
              ''https://api.nuget.org/v3/index.json'', ''--skip-duplicate''])
           (Inr \<lparr>returncode = 0, stdout = [], stderr = []\<rparr>),
          Print ''  Publishing A.1.0.0.snupkg...'',
          Print
           ''  > dotnet nuget push /r/packages/A.1.0.0.snupkg --api-key k --source https://api.nuget.org/v3/index.json --skip-duplicate'',
          Spawn
           (Argv
             [''dotnet'', ''nuget'', ''push'', ''/r/packages/A.1.0.0.snupkg'',
              ''--api-key'', ''k'', ''--source'',
              ''https://api.nuget.org/v3/index.json'', ''--skip-duplicate''])
           (Inr \<lparr>returncode = 0, stdout = [], stderr = []\<rparr>),
          Print
           ''\<newline>============================================================'',
          Print ''SUMMARY'',
          Print
           ''============================================================'',
          Print
           ''Package                                                  Pack  Sign  Push'',
          Print
           ''---------------------------------------------------------------------------'',
          Print
           ''A                                                          OK    OK    OK'',
          Print []],
       results =
         [\<lparr>name = ''A'', packed = True, signed = True, published = True\<rparr>]\<rparr>)"
  by (simp add: demo_defs)

lemma demo_pack_stage:
  "fst (step3_pack demo_os demo_args (PurePosixPath ''/r'') (PurePosixPath ''/r/packages'')
          [''p/A.csproj'', ''p/B.csproj''] \<lparr>world = [], trace = [], results = []\<rparr>) = Return ()"
  by (simp add: demo_defs)

lemma demo_archive_steps:
  "fst (step4_verify demo_os (PurePosixPath ''/r/packages'')
         \<lparr>world = [''A.1.0.0.snupkg'', ''A.1.0.0.nupkg''], trace = [], results = []\<rparr>) = Return ()"
  "fst (step5_sign demo_os demo_args (PurePosixPath ''/r'') (PurePosixPath ''/r/packages'')
         \<lparr>world = [''A.1.0.0.snupkg'', ''A.1.0.0.nupkg''], trace = [], results = []\<rparr>) = Return ()"
  "fst (step6_publish demo_os demo_args (PurePosixPath ''/r'') (PurePosixPath ''/r/packages'')
         \<lparr>world = [''A.1.0.0.snupkg'', ''A.1.0.0.nupkg''], trace = [], results = []\<rparr>) = Return ()"
  by (simp_all add: demo_defs publish_loop.simps sign_loop.simps)

section \<open>The pack stage\<close>

text \<open>
  C1. For every list of projects, after the pack stage has completed successfully the
  registry holds exactly one record per project, in the order of the list, each with
  \<open>packed\<close> true and \<open>signed\<close> and \<open>published\<close> false; its name is the stem of the
  project file.
\<close>

theorem pack_stage_registry:
  assumes "step3_pack os a root out PKGS st = (Return (), st')"
  shows "results st' = map (\<lambda>p. \<lparr>name = stem (truediv root p), packed = True, signed = False,
                                  published = False\<rparr>) PKGS
     \<and> length (results st') = length PKGS
     \<and> list_all (\<lambda>x. packed x \<and> \<not> signed x \<and> \<not> published x) (results st')"
proof -
  from step3_effect [OF assms] have "results st' = map (new_record root) PKGS" by auto
  then show ?thesis by (simp add: new_record_def [abs_def] list_all_iff)
qed

theorem pack_stage_registry_witness:
  "fst (step3_pack demo_os demo_args (PurePosixPath ''/r'') (PurePosixPath ''/r/packages'')
          [''p/A.csproj'', ''p/B.csproj''] \<lparr>world = [], trace = [], results = []\<rparr>) = Return ()
   \<and> results (snd (step3_pack demo_os demo_args (PurePosixPath ''/r'') (PurePosixPath ''/r/packages'')
          [''p/A.csproj'', ''p/B.csproj''] \<lparr>world = [], trace = [], results = []\<rparr>))
       = [\<lparr>name = ''A'', packed = True, signed = False, published = False\<rparr>,
          \<lparr>name = ''B'', packed = True, signed = False, published = False\<rparr>]"
proof -
  let ?run = "step3_pack demo_os demo_args (PurePosixPath ''/r'') (PurePosixPath ''/r/packages'')
          [''p/A.csproj'', ''p/B.csproj''] \<lparr>world = [], trace = [], results = []\<rparr>"
  have h: "?run = (Return (), snd ?run)"
    using demo_pack_stage by (simp add: prod_eq_iff)
  from pack_stage_registry [OF h]
  have "results (snd ?run) = map (\<lambda>p. \<lparr>name = stem (truediv (PurePosixPath ''/r'') p), packed = True,
            signed = False, published = False\<rparr>) [''p/A.csproj'', ''p/B.csproj'']" by simp
  then have "results (snd ?run) = [\<lparr>name = ''A'', packed = True, signed = False, published = False\<rparr>,
          \<lparr>name = ''B'', packed = True, signed = False, published = False\<rparr>]"
    by (simp add: stem_def truediv_def PurePosixPath_def path_name_def)
  with demo_pack_stage show ?thesis by simp
qed

text \<open>
  C3. If the pack command of project \<open>k\<close> (counted from 0; it is the command number
  \<open>2 + k\<close> of the run, after the restore and the build) exits with a non-zero code, the
  run ends with exit status 1, the commands of the whole run are the restore, the build
  and the pack commands of the projects up to \<open>k\<close> and no other, and the registry holds
  the records of the projects before \<open>k\<close> only, each with \<open>packed\<close> true.
\<close>

theorem pack_failure_halts:
  assumes m: "main os a PKGS w = (r, st)" and k: "k < length PKGS"
    and i: "2 + k < length (spawns (trace st))"
    and c: "snd (spawns (trace st) ! (2 + k)) = Inr c" and rc: "returncode c \<noteq> 0"
  shows "r = SysExit 1
     \<and> map fst (spawns (trace st))
         = restore_cmd # build_cmd
             # map (pack_cmd a (script_root os) (truediv (script_root os) ''packages''))
                 (take (Suc k) PKGS)
     \<and> results st = map (new_record (script_root os)) (take k PKGS)
     \<and> list_all packed (results st)"
proof -
  define root where "root = script_root os"
  define out where "out = truediv (script_root os) ''packages''"
  define st0 :: "'a state" where "st0 = \<lparr>world = w, trace = [], results = []\<rparr>"
  have ns: "\<not> succeeded (snd (spawns (trace st) ! (2 + k)))"
    using c rc by (simp add: succeeded_def)
  from m have "bind_res (first_steps os a PKGS root out) (\<lambda>u. archive_steps os a root out) st0
      = (r, st)" by (simp add: main_split root_def out_def st0_def)
  then show ?thesis
  proof (cases rule: bind_res_cases)
    case (abort r0)
    then have r0: "r0 = r" "r \<noteq> Return ()" by simp_all
    from first_steps_effect [OF abort(1)] obtain evs where
      e': "trace st = trace st0 @ evs" "seg r0 evs"
         "(if r0 = Return ()
           then map fst (spawns evs) = restore_cmd # build_cmd # map (pack_cmd a root out) PKGS
                \<and> results st = map (new_record root) PKGS
           else length (spawns evs) \<le> 2
             \<or> (\<exists>m. 0 < m \<and> m \<le> length PKGS
                  \<and> map fst (spawns evs)
                      = restore_cmd # build_cmd # map (pack_cmd a root out) (take m PKGS)
                  \<and> results st = map (new_record root) (take (m - 1) PKGS)))"
      by blast
    with r0 have e: "trace st = trace st0 @ evs" "seg r evs"
         "length (spawns evs) \<le> 2
             \<or> (\<exists>m. 0 < m \<and> m \<le> length PKGS
                  \<and> map fst (spawns evs)
                      = restore_cmd # build_cmd # map (pack_cmd a root out) (take m PKGS)
                  \<and> results st = map (new_record root) (take (m - 1) PKGS))"
      by simp_all
    from e(1) have tr: "trace st = evs" by (simp add: st0_def)
    from seg_unsucceeded [OF e(2) i [unfolded tr] ns [unfolded tr]]
    have l: "Suc (2 + k) = length (spawns evs)" and rr: "r = run_status (snd (spawns evs ! (2 + k)))"
      by simp_all
    from rr c rc tr have r: "r = SysExit 1" by simp
    from e(3) show ?thesis
    proof (elim disjE exE conjE)
      assume "length (spawns evs) \<le> 2"
      with l show ?thesis by simp
    next
      fix m assume mm: "0 < m" "m \<le> length PKGS"
        "map fst (spawns evs) = restore_cmd # build_cmd # map (pack_cmd a root out) (take m PKGS)"
        "results st = map (new_record root) (take (m - 1) PKGS)"
      have "length (spawns evs) = length (map fst (spawns evs))" by simp
      also have "\<dots> = 2 + length (take m PKGS)" unfolding mm(3) by simp
      finally have "length (spawns evs) = 2 + length (take m PKGS)" .
      with l mm(2) have mk: "m = Suc k" by simp
      have "map fst (spawns (trace st)) = restore_cmd # build_cmd
             # map (pack_cmd a root out) (take (Suc k) PKGS)"
        using mm(3) mk tr by simp
      moreover have "results st = map (new_record root) (take k PKGS)"
        using mm(4) mk by simp
      moreover from this have "list_all packed (results st)"
        by (simp add: list_all_iff new_record_def)
      ultimately show ?thesis using r by (simp add: root_def out_def)
    qed
  next
    case (ret x s1)
    from first_steps_effect [OF ret(1)] obtain e1 where
      e1': "trace s1 = trace st0 @ e1" "seg (Return x) e1"
         "(if Return x = Return ()
           then map fst (spawns e1) = restore_cmd # build_cmd # map (pack_cmd a root out) PKGS
                \<and> results s1 = map (new_record root) PKGS
           else length (spawns e1) \<le> 2
             \<or> (\<exists>m. 0 < m \<and> m \<le> length PKGS
                  \<and> map fst (spawns e1)
                      = restore_cmd # build_cmd # map (pack_cmd a root out) (take m PKGS)
                  \<and> results s1 = map (new_record root) (take (m - 1) PKGS)))"
      by blast
    then have e1: "trace s1 = trace st0 @ e1" "seg (Return ()) e1"
          "map fst (spawns e1) = restore_cmd # build_cmd # map (pack_cmd a root out) PKGS"
      by simp_all
    have "length (spawns e1) = length (map fst (spawns e1))" by simp
    also have "\<dots> = 2 + length PKGS" unfolding e1(3) by simp
    finally have l1: "length (spawns e1) = 2 + length PKGS" .
    have "keeps (\<lambda>c. True) (\<lambda>x. True) (archive_steps os a root out)"
      by (rule keeps_archive_steps) simp_all
    from keepsD [OF this ret(2)] obtain e2 where "trace st = trace s1 @ e2"
      unfolding grows_def by blast
    with e1(1) have tr: "spawns (trace st) = spawns e1 @ spawns e2" by (simp add: st0_def)
    from l1 k have "2 + k < length (spawns e1)" by simp
    moreover from e1(2) have "clean e1" by (simp add: seg_def)
    ultimately have "succeeded (snd (spawns e1 ! (2 + k)))" by (intro clean_nth)
    moreover from tr l1 k have "spawns (trace st) ! (2 + k) = spawns e1 ! (2 + k)"
      by (simp add: nth_append)
    ultimately show ?thesis using ns by simp
  qed
qed

theorem pack_failure_halts_witness:
  "(1 :: nat) < length [''p/A.csproj'', ''p/Bad.csproj'', ''p/C.csproj'']
   \<and> snd (spawns (trace (snd (main demo_os demo_args
              [''p/A.csproj'', ''p/Bad.csproj'', ''p/C.csproj''] []))) ! (2 + 1))
       = Inr \<lparr>returncode = 1, stdout = [], stderr = '' pack failed\<newline>''\<rparr>
   \<and> fst (main demo_os demo_args [''p/A.csproj'', ''p/Bad.csproj'', ''p/C.csproj''] []) = SysExit 1
   \<and> length (spawns (trace (snd (main demo_os demo_args
              [''p/A.csproj'', ''p/Bad.csproj'', ''p/C.csproj''] [])))) = 4
   \<and> results (snd (main demo_os demo_args [''p/A.csproj'', ''p/Bad.csproj'', ''p/C.csproj''] []))
       = [\<lparr>name = ''A'', packed = True, signed = False, published = False\<rparr>]"
proof -
  let ?PK = "[''p/A.csproj'', ''p/Bad.csproj'', ''p/C.csproj'']"
  let ?run = "main demo_os demo_args ?PK []"
  let ?bad = "\<lparr>returncode = 1, stdout = [], stderr = '' pack failed\<newline>''\<rparr>"
  have m: "?run = (fst ?run, snd ?run)" by simp
  have k: "(1 :: nat) < length ?PK" by simp
  have i: "2 + 1 < length (spawns (trace (snd ?run)))" by (simp add: demo_failing_run)
  have c: "snd (spawns (trace (snd ?run)) ! (2 + 1)) = Inr ?bad" by (simp add: demo_failing_run)
  have rc: "returncode ?bad \<noteq> 0" by simp
  from pack_failure_halts [OF m k i c rc]
  have "fst ?run = SysExit 1"
    and "map fst (spawns (trace (snd ?run)))
         = restore_cmd # build_cmd
             # map (pack_cmd demo_args (script_root demo_os) (truediv (script_root demo_os) ''packages''))
                 (take (Suc 1) ?PK)"
    and "results (snd ?run) = map (new_record (script_root demo_os)) (take 1 ?PK)"
    by simp_all
  then have "fst ?run = SysExit 1" and "length (map fst (spawns (trace (snd ?run)))) = 4"
    and "results (snd ?run) = [\<lparr>name = ''A'', packed = True, signed = False, published = False\<rparr>]"
    by (simp_all add: new_record_def demo_os_def stem_def truediv_def PurePosixPath_def path_name_def)
  with k c show ?thesis by simp
qed

section \<open>A failed command ends the run\<close>

text \<open>
  C6. \<open>run\<close> with \<open>check\<close>: a command that exits with a non-zero code makes \<open>run\<close>
  print the captured error text (stripped) and end the process with status 1; with exit
  code 0, \<open>run\<close> returns the captured result. In a run of \<open>main\<close>, a command that exited
  with a non-zero code is the last event but the error line: nothing runs after it,
  every command before it succeeded, and the run ends with exit status 1.
\<close>

theorem failed_command_is_fatal:
  "(subprocess_run os cmd (case cmd of Str s \<Rightarrow> True | Argv xs \<Rightarrow> False) cwd (world st0) = (Inr c, w')
      \<longrightarrow> run os cmd cwd True st0 =
            (if returncode c \<noteq> 0
             then (SysExit 1, st0\<lparr>world := w', trace := trace st0 @ [Print (echo cmd), Spawn cmd (Inr c),
                                     Print (''  ERROR: '' @ strip (stderr c))]\<rparr>)
             else (Return c, st0\<lparr>world := w', trace := trace st0 @ [Print (echo cmd), Spawn cmd (Inr c)]\<rparr>)))
   \<and> (main os a PKGS w = (r, st) \<and> Spawn cmd' (Inr c') \<in> set (trace st) \<and> returncode c' \<noteq> 0
      \<longrightarrow> r = SysExit 1
          \<and> (\<exists>pre. trace st = pre @ [Spawn cmd' (Inr c'), Print (''  ERROR: '' @ strip (stderr c'))]
                   \<and> (\<forall>c2 out2. Spawn c2 out2 \<in> set pre \<longrightarrow> succeeded out2)))"
proof (rule conjI)
  show "subprocess_run os cmd (case cmd of Str s \<Rightarrow> True | Argv xs \<Rightarrow> False) cwd (world st0) = (Inr c, w')
      \<longrightarrow> run os cmd cwd True st0 =
            (if returncode c \<noteq> 0
             then (SysExit 1, st0\<lparr>world := w', trace := trace st0 @ [Print (echo cmd), Spawn cmd (Inr c),
                                     Print (''  ERROR: '' @ strip (stderr c))]\<rparr>)
             else (Return c, st0\<lparr>world := w', trace := trace st0 @ [Print (echo cmd), Spawn cmd (Inr c)]\<rparr>))"
    by (simp add: run_def print_def echo_def Let_def)
next
  show "main os a PKGS w = (r, st) \<and> Spawn cmd' (Inr c') \<in> set (trace st) \<and> returncode c' \<noteq> 0
      \<longrightarrow> r = SysExit 1
          \<and> (\<exists>pre. trace st = pre @ [Spawn cmd' (Inr c'), Print (''  ERROR: '' @ strip (stderr c'))]
                   \<and> (\<forall>c2 out2. Spawn c2 out2 \<in> set pre \<longrightarrow> succeeded out2))"
  proof (rule impI)
    assume a: "main os a PKGS w = (r, st) \<and> Spawn cmd' (Inr c') \<in> set (trace st) \<and> returncode c' \<noteq> 0"
    then have m: "main os a PKGS w = (r, st)" and "(cmd', Inr c') \<in> set (spawns (trace st))"
      and rc: "returncode c' \<noteq> 0" by (simp_all add: Spawn_in_spawns)
    then obtain i where i: "i < length (spawns (trace st))" "spawns (trace st) ! i = (cmd', Inr c')"
      by (auto simp: in_set_conv_nth)
    have "list_all (\<lambda>c. True) (map fst (spawns (trace st)))
       \<and> seg r (trace st) \<and> list_all (\<lambda>x. True) (results st)"
      by (intro main_keeps [OF _ _ _ _ _ _ m]) simp_all
    then have sg: "seg r (trace st)" by simp
    from i(2) rc have "\<not> succeeded (snd (spawns (trace st) ! i))" by (simp add: succeeded_def)
    from seg_unsucceeded [OF sg i(1) this] obtain pre where
      p: "r = run_status (snd (spawns (trace st) ! i))" "clean pre"
      "trace st = pre @ Spawn (fst (spawns (trace st) ! i)) (snd (spawns (trace st) ! i))
                        # run_tail (snd (spawns (trace st) ! i))"
      by blast
    from p(1) i(2) rc have "r = SysExit 1" by simp
    moreover from p(3) i(2) rc
    have "trace st = pre @ [Spawn cmd' (Inr c'), Print (''  ERROR: '' @ strip (stderr c'))]" by simp
    moreover from p(2) have "\<forall>c2 out2. Spawn c2 out2 \<in> set pre \<longrightarrow> succeeded out2"
      by (simp add: clean_iff)
    ultimately show "r = SysExit 1
          \<and> (\<exists>pre. trace st = pre @ [Spawn cmd' (Inr c'), Print (''  ERROR: '' @ strip (stderr c'))]
                   \<and> (\<forall>c2 out2. Spawn c2 out2 \<in> set pre \<longrightarrow> succeeded out2))"
      by blast
  qed
qed

theorem failed_command_is_fatal_witness:
  "subprocess_run demo_os (Argv [''dotnet'', ''pack'', ''Bad'']) False None [] =
     (Inr \<lparr>returncode = 1, stdout = [], stderr = '' pack failed\<newline>''\<rparr>, [])
   \<and> run demo_os (Argv [''dotnet'', ''pack'', ''Bad'']) None True \<lparr>world = [], trace = [], results = []\<rparr>
      = (SysExit 1, \<lparr>world = [],
           trace = [Print ''  > dotnet pack Bad'',
                    Spawn (Argv [''dotnet'', ''pack'', ''Bad''])
                      (Inr \<lparr>returncode = 1, stdout = [], stderr = '' pack failed\<newline>''\<rparr>),
                    Print ''  ERROR: pack failed''],
           results = []\<rparr>)
   \<and> Spawn (Argv [''dotnet'', ''pack'', ''/r/p/Bad.csproj'', ''--configuration'', ''Release'',
                  ''--no-build'', ''-p:PackageVersion=1.0.0'', ''--output'', ''/r/packages''])
        (Inr \<lparr>returncode = 1, stdout = [], stderr = '' pack failed\<newline>''\<rparr>)
       \<in> set (trace (snd (main demo_os demo_args [''p/A.csproj'', ''p/Bad.csproj'', ''p/C.csproj''] [])))
   \<and> fst (main demo_os demo_args [''p/A.csproj'', ''p/Bad.csproj'', ''p/C.csproj''] []) = SysExit 1
   \<and> last (trace (snd (main demo_os demo_args [''p/A.csproj'', ''p/Bad.csproj'', ''p/C.csproj''] [])))
       = Print ''  ERROR: pack failed''"
proof -
  let ?PK = "[''p/A.csproj'', ''p/Bad.csproj'', ''p/C.csproj'']"
  let ?run = "main demo_os demo_args ?PK []"
  let ?bad = "\<lparr>returncode = 1, stdout = [], stderr = '' pack failed\<newline>''\<rparr>"
  let ?c = "Argv [''dotnet'', ''pack'', ''Bad'']"
  let ?c' = "Argv [''dotnet'', ''pack'', ''/r/p/Bad.csproj'', ''--configuration'', ''Release'',
                  ''--no-build'', ''-p:PackageVersion=1.0.0'', ''--output'', ''/r/packages'']"
  let ?st0 = "\<lparr>world = [], trace = [], results = []\<rparr> :: string list state"
  have s: "subprocess_run demo_os ?c (case ?c of Str s \<Rightarrow> True | Argv xs \<Rightarrow> False) None (world ?st0)
      = (Inr ?bad, [])"
    by (simp add: demo_os_def demo_run_def)
  have m: "?run = (fst ?run, snd ?run) \<and> Spawn ?c' (Inr ?bad) \<in> set (trace (snd ?run))
      \<and> returncode ?bad \<noteq> 0"
    by (simp add: demo_failing_run)
  from failed_command_is_fatal [of demo_os ?c None ?st0 ?bad "[]" demo_args ?PK "[]" "fst ?run"
      "snd ?run" ?c' ?bad] s m
  have r: "run demo_os ?c None True ?st0 =
      (SysExit 1, ?st0\<lparr>world := [], trace := trace ?st0 @ [Print (echo ?c), Spawn ?c (Inr ?bad),
                                     Print (''  ERROR: '' @ strip (stderr ?bad))]\<rparr>)"
    and f: "fst ?run = SysExit 1"
    and "\<exists>pre. trace (snd ?run) = pre @ [Spawn ?c' (Inr ?bad), Print (''  ERROR: '' @ strip (stderr ?bad))]
                   \<and> (\<forall>c2 out2. Spawn c2 out2 \<in> set pre \<longrightarrow> succeeded out2)"
    by simp_all
  then obtain pre where
    "trace (snd ?run) = pre @ [Spawn ?c' (Inr ?bad), Print (''  ERROR: '' @ strip (stderr ?bad))]"
    by blast
  then have l: "last (trace (snd ?run)) = Print ''  ERROR: pack failed''"
    by (simp add: strip_def isspace_def)
  from r have "run demo_os ?c None True ?st0
      = (SysExit 1, \<lparr>world = [], trace = [Print ''  > dotnet pack Bad'', Spawn ?c (Inr ?bad),
                    Print ''  ERROR: pack failed''], results = []\<rparr>)"
    by (simp add: echo_def strip_def isspace_def)
  with s m f l show ?thesis by simp
qed

section \<open>Missing configuration\<close>






section \<open>The dry run\<close>

lemma summary_rows:
  assumes "summary s = (r, st)"
  shows "\<exists>pre. trace st = pre @ map (\<lambda>x. Print (summary_row x)) (results st) @ [Print []]"
proof -
  from assms have "results st = results s"
    and "trace st = trace (print_rows (results s) (print (replicate 75 CHR ''-'')
       (print (ljust 55 ''Package'' @ '' '' @ rjust 5 ''Pack'' @ '' '' @ rjust 5 ''Sign''
                        @ '' '' @ rjust 5 ''Push'')
       (print (replicate 60 CHR ''='') (print ''SUMMARY''
       (print (CHR 0x0A # replicate 60 CHR ''='') s)))))) @ [Print []]"
    by (auto simp: summary_def Let_def print_def print_rows_effect)
  then show ?thesis by (simp add: print_rows_effect)
qed

lemma bind_res_Return:
  assumes "bind_res m f s = (Return y, s')"
  obtains x s1 where "m s = (Return x, s1)" "f x s1 = (Return y, s')"
  using assms by (cases rule: bind_res_cases) auto

lemma main_Return_summary:
  assumes "main os a PKGS w = (Return (), st)"
  shows "\<exists>s. summary s = (Return (), st)"
  using assms unfolding main_def Let_def
  by (elim bind_res_Return) blast

text \<open>
  C7. When the publish flag is unset, no push command is spawned during the whole run
  and no record is marked published, whether or not the sign flag is set; when the run
  reaches the summary, its rows are those of the registry in that state.
\<close>

theorem dry_run_publishes_nothing:
  assumes "\<not> publish a" and m: "main os a PKGS w = (r, st)"
  shows "(\<forall>c out. Spawn c out \<in> set (trace st) \<longrightarrow> \<not> is_push c)
     \<and> (\<forall>x \<in> set (results st). \<not> published x)
     \<and> (r = Return () \<longrightarrow>
          (\<exists>pre. trace st = pre @ map (\<lambda>x. Print (summary_row x)) (results st) @ [Print []]))"
proof -
  have "list_all (\<lambda>c. \<not> is_push c) (map fst (spawns (trace st)))
     \<and> seg r (trace st) \<and> list_all (\<lambda>x. \<not> published x) (results st)"
    using assms(1) by (intro main_keeps [OF _ _ _ _ _ _ m]) (simp_all add: new_record_def)
  then have "\<forall>c out. Spawn c out \<in> set (trace st) \<longrightarrow> \<not> is_push c"
    and "\<forall>x \<in> set (results st). \<not> published x"
    by (auto simp: list_all_iff Spawn_in_spawns)
  moreover have "r = Return () \<longrightarrow>
          (\<exists>pre. trace st = pre @ map (\<lambda>x. Print (summary_row x)) (results st) @ [Print []])"
  proof (rule impI)
    assume "r = Return ()"
    with m have "main os a PKGS w = (Return (), st)" by simp
    from main_Return_summary [OF this] obtain s where "summary s = (Return (), st)" ..
    from summary_rows [OF this]
    show "\<exists>pre. trace st = pre @ map (\<lambda>x. Print (summary_row x)) (results st) @ [Print []]" .
  qed
  ultimately show ?thesis by blast
qed

theorem dry_run_publishes_nothing_witness:
  "\<not> publish (demo_args\<lparr>publish := False\<rparr>)
   \<and> filter is_push (map fst (spawns (trace (snd (main demo_os (demo_args\<lparr>publish := False\<rparr>)
        [''p/A.csproj''] [])))))= []
   \<and> filter published (results (snd (main demo_os (demo_args\<lparr>publish := False\<rparr>)
        [''p/A.csproj''] []))) = []"
proof -
  let ?a = "demo_args\<lparr>publish := False\<rparr>"
  let ?run = "main demo_os ?a [''p/A.csproj''] []"
  have h: "\<not> publish ?a" by simp
  have m: "?run = (fst ?run, snd ?run)" by simp
  from dry_run_publishes_nothing [OF h m]
  have "\<forall>c out. Spawn c out \<in> set (trace (snd ?run)) \<longrightarrow> \<not> is_push c"
    and "\<forall>x \<in> set (results (snd ?run)). \<not> published x" by simp_all
  then have "filter is_push (map fst (spawns (trace (snd ?run)))) = []"
    and "filter published (results (snd ?run)) = []"
    by (auto simp: filter_empty_conv Spawn_in_spawns)
  with h show ?thesis by simp
qed

section \<open>The registry only gains flags\<close>

lemma flags_le_refl [simp]: "flags_le r r"
  by (simp add: flags_le_def)

lemma flags_le_trans: "flags_le r1 r2 \<Longrightarrow> flags_le r2 r3 \<Longrightarrow> flags_le r1 r3"
  by (auto simp: flags_le_def)

lemma registry_le_refl: "list_all2 flags_le rs rs"
  by (simp add: list_all2_refl)

lemma registry_le_trans:
  "list_all2 flags_le rs1 rs2 \<Longrightarrow> list_all2 flags_le rs2 rs3 \<Longrightarrow> list_all2 flags_le rs1 rs3"
  by (rule list_all2_trans [of flags_le flags_le flags_le]) (auto intro: flags_le_trans)

lemma mark_signed_le: "list_all2 flags_le rs (mark_signed f rs)"
  by (induction rs) (simp_all add: flags_le_def)

lemma mark_published_le: "list_all2 flags_le rs (mark_published f rs)"
  by (induction rs) (simp_all add: flags_le_def)

lemma mark_signed_nth:
  "i < length rs \<Longrightarrow> mark_signed f rs ! i = (if matches f (rs ! i) then (rs ! i)\<lparr>signed := True\<rparr> else rs ! i)"
  by (simp add: mark_signed_map)

lemma mark_published_nth:
  "i < length rs \<Longrightarrow> mark_published f rs ! i
     = (if matches f (rs ! i) then (rs ! i)\<lparr>published := True\<rparr> else rs ! i)"
  by (simp add: mark_published_map)

lemma foldl_le:
  assumes "\<And>x rs. list_all2 flags_le rs (upd x rs)"
  shows "list_all2 flags_le rs (foldl (\<lambda>rs x. upd x rs) rs xs)"
proof (induction xs arbitrary: rs)
  case Nil
  show ?case by (simp add: registry_le_refl)
next
  case (Cons x xs)
  from registry_le_trans [OF assms [of rs x] Cons.IH [of "upd x rs"]] show ?case by simp
qed

lemma spawn_loop_le:
  assumes u: "\<And>x rs. list_all2 flags_le rs (upd x rs)"
    and l: "spawn_loop os root hdr cmd upd xs st = (r, st')"
  shows "list_all2 flags_le (results st) (results st')"
proof -
  from spawn_loop_effect [OF l] obtain evs m where
    e: "(if r = Return () then m = length xs \<and> clean evs
                              \<and> results st' = foldl (\<lambda>rs x. upd x rs) (results st) xs
        else 0 < m \<and> fails r evs
             \<and> results st' = foldl (\<lambda>rs x. upd x rs) (results st) (take (m - 1) xs))"
    by blast
  show ?thesis
  proof (cases "r = Return ()")
    case True
    with e have "results st' = foldl (\<lambda>rs x. upd x rs) (results st) xs" by simp
    then show ?thesis by (simp add: foldl_le [OF u])
  next
    case False
    with e have "results st' = foldl (\<lambda>rs x. upd x rs) (results st) (take (m - 1) xs)" by simp
    then show ?thesis by (simp add: foldl_le [OF u])
  qed
qed

lemma sign_loop_le:
  assumes "sign_loop os a root cert ps st = (r, st')"
  shows "list_all2 flags_le (results st) (results st')"
  using spawn_loop_le [where upd = "\<lambda>p. mark_signed (path_name p)",
      OF mark_signed_le assms [unfolded sign_loop_spawn_loop]] .

lemma publish_loop_le:
  assumes "publish_loop os root key ps st = (r, st')"
  shows "list_all2 flags_le (results st) (results st')"
  using spawn_loop_le [where upd = "\<lambda>p. mark_published (path_name p)",
      OF mark_published_le assms [unfolded publish_loop_spawn_loop]] .

lemma step5_le:
  assumes "step5_sign os a root out st = (r, st')"
  shows "list_all2 flags_le (results st) (results st')"
proof (cases "sign a")
  case False
  with assms show ?thesis by (simp add: step5_unfold(1) registry_le_refl)
next
  case True
  show ?thesis
  proof (cases "falsy (cert_path a)")
    case f: True
    with True assms have "results st' = results st" by (auto simp: step5_unfold(2) print_def)
    then show ?thesis by (simp add: registry_le_refl)
  next
    case f: False
    then obtain cert where c: "cert_path a = Some cert" "cert \<noteq> []"
      using falsy_cases [of "cert_path a"] by blast
    from assms have "sign_loop os a root cert (sign_files os out (world st))
       (print (CHR 0x0A # ''[4.5/5] Signing packages...'') st) = (r, st')"
      by (simp add: step5_unfold(3) [OF True c])
    from sign_loop_le [OF this] show ?thesis by (simp add: print_def)
  qed
qed

lemma step6_le:
  assumes "step6_publish os a root out st = (r, st')"
  shows "list_all2 flags_le (results st) (results st')"
proof (cases "publish a")
  case False
  with assms have "results st' = results st" by (auto simp: step6_unfold(1) print_def)
  then show ?thesis by (simp add: registry_le_refl)
next
  case True
  show ?thesis
  proof (cases "falsy (api_key a)")
    case f: True
    with True assms have "results st' = results st" by (auto simp: step6_unfold(2) print_def)
    then show ?thesis by (simp add: registry_le_refl)
  next
    case f: False
    then obtain key where c: "api_key a = Some key" "key \<noteq> []"
      using falsy_cases [of "api_key a"] by blast
    from assms have "publish_loop os root key (sign_files os out (world st))
       (print (CHR 0x0A # ''[5/5] Publishing to NuGet...'') st) = (r, st')"
      by (simp add: step6_unfold(3) [OF True c])
    from publish_loop_le [OF this] show ?thesis by (simp add: print_def)
  qed
qed

lemma le_bind:
  assumes m: "\<And>st r st'. m st = (r, st') \<Longrightarrow> list_all2 flags_le (results st) (results st')"
    and f: "\<And>x st r st'. f x st = (r, st') \<Longrightarrow> list_all2 flags_le (results st) (results st')"
    and b: "bind_res m f st = (r, st')"
  shows "list_all2 flags_le (results st) (results st')"
  using b
proof (cases rule: bind_res_cases)
  case (ret x s1)
  from registry_le_trans [OF m [OF ret(1)] f [OF ret(2)]] show ?thesis .
next
  case (abort r0)
  from m [OF abort(1)] show ?thesis .
qed

lemma archive_steps_le:
  assumes "archive_steps os a root out st = (r, st')"
  shows "list_all2 flags_le (results st) (results st')"
proof -
  have s4: "\<And>st r st'. step4_verify os out st = (r, st')
      \<Longrightarrow> list_all2 flags_le (results st) (results st')"
    using step4_effect by (metis registry_le_refl)
  have su: "\<And>(st :: 'a state) r st'. summary st = (r, st')
      \<Longrightarrow> list_all2 flags_le (results st) (results st')"
    using summary_effect by (metis registry_le_refl state.select_convs(3) state.surjective state.update_convs(2) prod.inject)
  show ?thesis
    using assms unfolding archive_steps_def
    by (elim le_bind [rotated 2]) (erule s4 step5_le step6_le su)+
qed

text \<open>
  C10. Every operation on the registry after a record was created leaves the record
  as it is or sets one flag to true: the two marking loops change a record only by
  setting \<open>signed\<close>, respectively \<open>published\<close>, to true; the pack loop only appends
  records; and from any state, however they end, the sign loop, the publish loop and
  the steps after the packing leave a registry of the same names in which no flag that
  was true is false.
\<close>

theorem registry_only_gains_flags:
  "list_all2 flags_le rs (mark_signed f rs) \<and> list_all2 flags_le rs (mark_published f rs)
   \<and> (i < length rs \<longrightarrow>
         (mark_signed f rs ! i = rs ! i \<or> mark_signed f rs ! i = (rs ! i)\<lparr>signed := True\<rparr>)
       \<and> (mark_published f rs ! i = rs ! i \<or> mark_published f rs ! i = (rs ! i)\<lparr>published := True\<rparr>))
   \<and> (pack_loop os a root out PKGS st = (r, st') \<longrightarrow> (\<exists>new. results st' = results st @ new))
   \<and> (sign_loop os a root cert ps st = (r, st') \<longrightarrow> list_all2 flags_le (results st) (results st'))
   \<and> (publish_loop os root key ps st = (r, st') \<longrightarrow> list_all2 flags_le (results st) (results st'))
   \<and> (archive_steps os a root out st = (r, st') \<longrightarrow> list_all2 flags_le (results st) (results st'))"
proof -
  have a4: "pack_loop os a root out PKGS st = (r, st') \<longrightarrow> (\<exists>new. results st' = results st @ new)"
  proof
    assume "pack_loop os a root out PKGS st = (r, st')"
    from spawn_loop_effect [OF this [unfolded pack_loop_spawn_loop]]
    show "\<exists>new. results st' = results st @ new"
      by (auto simp: foldl_snoc_records split: if_splits)
  qed
  have a3: "i < length rs \<longrightarrow>
         (mark_signed f rs ! i = rs ! i \<or> mark_signed f rs ! i = (rs ! i)\<lparr>signed := True\<rparr>)
       \<and> (mark_published f rs ! i = rs ! i \<or> mark_published f rs ! i = (rs ! i)\<lparr>published := True\<rparr>)"
    by (simp add: mark_signed_nth mark_published_nth)
  have a5: "sign_loop os a root cert ps st = (r, st') \<longrightarrow> list_all2 flags_le (results st) (results st')"
    by (rule impI) (rule sign_loop_le)
  have a6: "publish_loop os root key ps st = (r, st') \<longrightarrow> list_all2 flags_le (results st) (results st')"
    by (rule impI) (rule publish_loop_le)
  have a7: "archive_steps os a root out st = (r, st') \<longrightarrow> list_all2 flags_le (results st) (results st')"
    by (rule impI) (rule archive_steps_le)
  from mark_signed_le [of rs f] mark_published_le [of rs f] a3 a4 a5 a6 a7
  show ?thesis by (intro conjI)
qed

theorem registry_only_gains_flags_witness:
  "(0 :: nat) < length [\<lparr>name = ''A'', packed = True, signed = False, published = False\<rparr>]
   \<and> mark_signed ''A.1.0.0.nupkg'' [\<lparr>name = ''A'', packed = True, signed = False, published = False\<rparr>] ! 0
      = \<lparr>name = ''A'', packed = True, signed = True, published = False\<rparr>
   \<and> mark_published ''B.1.0.0.nupkg'' [\<lparr>name = ''A'', packed = True, signed = False, published = False\<rparr>] ! 0
      = \<lparr>name = ''A'', packed = True, signed = False, published = False\<rparr>
   \<and> list_all2 flags_le [\<lparr>name = ''A'', packed = True, signed = False, published = False\<rparr>]
        (results (snd (archive_steps demo_os demo_args (PurePosixPath ''/r'') (PurePosixPath ''/r/packages'')
           \<lparr>world = [''A.1.0.0.nupkg''], trace = [],
            results = [\<lparr>name = ''A'', packed = True, signed = False, published = False\<rparr>]\<rparr>)))"
proof -
  let ?rs = "[\<lparr>name = ''A'', packed = True, signed = False, published = False\<rparr>]"
  let ?st = "\<lparr>world = [''A.1.0.0.nupkg''], trace = [], results = ?rs\<rparr> :: string list state"
  let ?run = "archive_steps demo_os demo_args (PurePosixPath ''/r'') (PurePosixPath ''/r/packages'') ?st"
  have h: "?run = (fst ?run, snd ?run)" by simp
  from registry_only_gains_flags [where os = demo_os and a = demo_args
      and root = "PurePosixPath ''/r''" and out = "PurePosixPath ''/r/packages''"
      and st = ?st and r = "fst ?run" and st' = "snd ?run"] h
  have "list_all2 flags_le (results ?st) (results (snd ?run))" by blast
  then show ?thesis by (simp add: matches_def)
qed

section \<open>The steps that work on the archives\<close>

lemma split_at_event:
  assumes "xs @ ys = pre @ ev # post" and "ev \<notin> set xs"
  shows "\<exists>p2. pre = xs @ p2 \<and> ys = p2 @ ev # post"
proof -
  from assms(1) obtain us where
    "(xs = pre @ us \<and> us @ ys = ev # post) \<or> (xs @ us = pre \<and> ys = us @ ev # post)"
    unfolding append_eq_append_conv2 by blast
  then show ?thesis
  proof
    assume a: "xs = pre @ us \<and> us @ ys = ev # post"
    show ?thesis
    proof (cases us)
      case Nil
      with a show ?thesis by simp
    next
      case (Cons u us')
      with a have "u = ev" by simp
      with a Cons assms(2) show ?thesis by simp
    qed
  next
    assume "xs @ us = pre \<and> ys = us @ ev # post"
    then show ?thesis by blast
  qed
qed

lemma archive_event_seen:
  assumes "archive_event ev" and "ev \<in> set evs" and "opened evs = []"
  shows "\<not> list_all (\<lambda>c. \<not> is_sign c \<and> \<not> is_push c) (map fst (spawns evs))"
proof (cases ev)
  case (Print s)
  with assms(1) show ?thesis by simp
next
  case (Spawn c out)
  with assms(2) have "(c, out) \<in> set (spawns evs)" by (simp add: Spawn_in_spawns)
  then have "c \<in> set (map fst (spawns evs))" by force
  with Spawn assms(1) show ?thesis by (auto simp: list_all_iff)
next
  case (ZipOpen p z)
  with assms(2) have "p \<in> set (opened evs)" by (simp add: ZipOpen_in_opened)
  with assms(3) show ?thesis by simp
qed

lemma spawns_subset: "set (spawns ys) \<subseteq> set (spawns (xs @ e # ys))"
  by (cases e) auto

lemma archive_event_after_packing:
  assumes m: "main os a PKGS w = (r, st)" and tr: "trace st = pre @ ev # post"
    and ev: "archive_event ev"
  shows "(\<exists>rest. map fst (spawns pre)
            = restore_cmd # build_cmd
                # map (pack_cmd a (script_root os) (truediv (script_root os) ''packages'')) PKGS
                @ rest
            \<and> list_all (\<lambda>c. \<not> is_pack c) rest)
     \<and> list_all succeeded (map snd (take (2 + length PKGS) (spawns pre)))
     \<and> list_all (\<lambda>c. \<not> is_pack c) (map fst (spawns post))"
proof -
  define root where "root = script_root os"
  define out where "out = truediv (script_root os) ''packages''"
  define st0 :: "'a state" where "st0 = \<lparr>world = w, trace = [], results = []\<rparr>"
  from m have "bind_res (first_steps os a PKGS root out) (\<lambda>u. archive_steps os a root out) st0
      = (r, st)" by (simp add: main_split root_def out_def st0_def)
  then show ?thesis
  proof (cases rule: bind_res_cases)
    case (abort r0)
    from first_steps_effect [OF abort(1)] obtain evs where
      e: "trace st = trace st0 @ evs" "opened evs = []"
         "list_all (\<lambda>c. \<not> is_sign c \<and> \<not> is_push c) (map fst (spawns evs))"
      by blast
    from e(1) have "trace st = evs" by (simp add: st0_def)
    with tr have "evs = pre @ ev # post" by simp
    then have "ev \<in> set evs" by simp
    from archive_event_seen [OF ev this e(2)] e(3) show ?thesis by simp
  next
    case (ret x s1)
    from first_steps_effect [OF ret(1)] obtain e1 where
      e1': "trace s1 = trace st0 @ e1" "opened e1 = []"
         "list_all (\<lambda>c. \<not> is_sign c \<and> \<not> is_push c) (map fst (spawns e1))" "seg (Return x) e1"
         "(if Return x = Return ()
           then map fst (spawns e1) = restore_cmd # build_cmd # map (pack_cmd a root out) PKGS
                \<and> results s1 = map (new_record root) PKGS
           else length (spawns e1) \<le> 2
             \<or> (\<exists>m. 0 < m \<and> m \<le> length PKGS
                  \<and> map fst (spawns e1)
                      = restore_cmd # build_cmd # map (pack_cmd a root out) (take m PKGS)
                  \<and> results s1 = map (new_record root) (take (m - 1) PKGS)))"
      by blast
    then have e1: "trace s1 = e1" "clean e1"
          "map fst (spawns e1) = restore_cmd # build_cmd # map (pack_cmd a root out) PKGS"
      by (simp_all add: seg_def st0_def)
    have "keeps (\<lambda>c. \<not> is_pack c) (\<lambda>x. True) (archive_steps os a root out)"
      by (rule keeps_archive_steps) simp_all
    from keepsD [OF this ret(2)] obtain e2 where
      e2: "trace st = trace s1 @ e2" "list_all (\<lambda>c. \<not> is_pack c) (map fst (spawns e2))"
      unfolding grows_def by blast
    have notin: "ev \<notin> set e1"
    proof
      assume "ev \<in> set e1"
      from archive_event_seen [OF ev this e1'(2)] e1'(3) show False by simp
    qed
    from e2(1) e1(1) tr have "e1 @ e2 = pre @ ev # post" by simp
    from split_at_event [OF this notin] obtain p2 where p2: "pre = e1 @ p2" "e2 = p2 @ ev # post"
      by (elim exE conjE)
    have l1: "length (spawns e1) = 2 + length PKGS"
    proof -
      have "length (spawns e1) = length (map fst (spawns e1))" by simp
      also have "\<dots> = 2 + length PKGS" unfolding e1(3) by simp
      finally show ?thesis .
    qed
    have "spawns e2 = spawns p2 @ spawns (ev # post)" by (simp add: p2(2))
    then have sub: "set (spawns p2) \<subseteq> set (spawns e2)" by simp
    have sub': "set (spawns post) \<subseteq> set (spawns e2)"
      unfolding p2(2) by (rule spawns_subset)
    have np2: "list_all (\<lambda>c. \<not> is_pack c) (map fst (spawns p2))"
      using e2(2) sub unfolding list_all_iff by (simp add: image_iff) blast
    have npost: "list_all (\<lambda>c. \<not> is_pack c) (map fst (spawns post))"
      using e2(2) sub' unfolding list_all_iff by (simp add: image_iff) blast
    have "map fst (spawns pre)
            = restore_cmd # build_cmd # map (pack_cmd a root out) PKGS @ map fst (spawns p2)"
      using e1(3) by (simp add: p2(1))
    with np2 have A: "\<exists>rest. map fst (spawns pre)
            = restore_cmd # build_cmd # map (pack_cmd a root out) PKGS @ rest
            \<and> list_all (\<lambda>c. \<not> is_pack c) rest"
      by (intro exI [of _ "map fst (spawns p2)"]) simp
    have "take (2 + length PKGS) (spawns pre) = spawns e1"
      using l1 by (simp add: p2(1))
    with e1(2) have B: "list_all succeeded (map snd (take (2 + length PKGS) (spawns pre)))"
      by (simp add: clean_def)
    from A B npost show ?thesis by (simp add: root_def out_def)
  qed
qed

lemma step5_iterates:
  assumes "sign a" "cert_path a = Some cert" "cert \<noteq> []"
    and "step5_sign os a root out st = (Return (), st')"
  shows "\<exists>evs. trace st' = trace st @ evs \<and> opened evs = []
     \<and> map fst (spawns evs) = map (sign_cmd a cert) (sign_files os out (world st))"
proof -
  define st1 where "st1 = print (CHR 0x0A # ''[4.5/5] Signing packages...'') st"
  from assms have "spawn_loop os root (\<lambda>p. None) (sign_cmd a cert)
      (\<lambda>p. mark_signed (path_name p)) (sign_files os out (world st)) st1 = (Return (), st')"
    by (simp add: step5_unfold(3) sign_loop_spawn_loop st1_def)
  from spawn_loop_effect [OF this] obtain evs m where
    e: "trace st' = trace st1 @ evs" "m \<le> length (sign_files os out (world st))"
       "map fst (spawns evs) = map (sign_cmd a cert) (take m (sign_files os out (world st)))"
       "opened evs = []"
       "(if Return () = Return () then m = length (sign_files os out (world st)) \<and> clean evs
             \<and> results st' = foldl (\<lambda>rs x. mark_signed (path_name x) rs) (results st1)
                                (sign_files os out (world st))
        else 0 < m \<and> fails (Return ()) evs
             \<and> results st' = foldl (\<lambda>rs x. mark_signed (path_name x) rs) (results st1)
                                (take (m - 1) (sign_files os out (world st))))"
    by blast
  from e(5) have "m = length (sign_files os out (world st))" by simp
  with e(1,3,4) show ?thesis
    by (intro exI [of _ "Print (CHR 0x0A # ''[4.5/5] Signing packages...'') # evs"])
       (simp add: st1_def print_def)
qed

lemma step6_iterates:
  assumes "publish a" "api_key a = Some key" "key \<noteq> []"
    and "step6_publish os a root out st = (Return (), st')"
  shows "\<exists>evs. trace st' = trace st @ evs \<and> opened evs = []
     \<and> map fst (spawns evs) = map (push_cmd key) (sign_files os out (world st))"
proof -
  define st1 where "st1 = print (CHR 0x0A # ''[5/5] Publishing to NuGet...'') st"
  from assms have "spawn_loop os root (\<lambda>p. Some (''  Publishing '' @ path_name p @ ''...''))
      (push_cmd key) (\<lambda>p. mark_published (path_name p)) (sign_files os out (world st)) st1
        = (Return (), st')"
    by (simp add: step6_unfold(3) publish_loop_spawn_loop st1_def)
  from spawn_loop_effect [OF this] obtain evs m where
    e: "trace st' = trace st1 @ evs" "m \<le> length (sign_files os out (world st))"
       "map fst (spawns evs) = map (push_cmd key) (take m (sign_files os out (world st)))"
       "opened evs = []"
       "(if Return () = Return () then m = length (sign_files os out (world st)) \<and> clean evs
             \<and> results st' = foldl (\<lambda>rs x. mark_published (path_name x) rs) (results st1)
                                (sign_files os out (world st))
        else 0 < m \<and> fails (Return ()) evs
             \<and> results st' = foldl (\<lambda>rs x. mark_published (path_name x) rs) (results st1)
                                (take (m - 1) (sign_files os out (world st))))"
    by blast
  from e(5) have "m = length (sign_files os out (world st))" by simp
  with e(1,3,4) show ?thesis
    by (intro exI [of _ "Print (CHR 0x0A # ''[5/5] Publishing to NuGet...'') # evs"])
       (simp add: st1_def print_def)
qed

lemma step4_iterates:
  assumes "step4_verify os out st = (Return (), st')"
  shows "world st' = world st
     \<and> (\<exists>evs. trace st' = trace st @ evs \<and> spawns evs = []
           \<and> opened evs = verify_files os out (world st))"
proof -
  from step4_effect [OF assms] obtain evs k where
    e: "trace st' = trace st @ evs" "spawns evs = []"
       "opened evs = take k (verify_files os out (world st))" "world st' = world st"
       "(if Return () = Return () then k = length (verify_files os out (world st))
        else 0 < k \<and> (\<exists>e. Return () = Raise e
               \<and> zip_namelist os (verify_files os out (world st) ! (k - 1)) (world st) = Inl e))"
    by blast
  from e(5) have "k = length (verify_files os out (world st))" by simp
  with e(1-4) show ?thesis by (intro conjI exI [of _ evs]) simp_all
qed

text \<open>
  C4, as the code has it. In a run of \<open>main\<close>, an archive is opened, signed or pushed
  only after the restore, the build and the pack command of every project have run and
  succeeded, and no pack command runs afterwards. When step 4 completes it has opened,
  once each and in sorted order of the file names, the entries of the output directory
  that match \<open>*.nupkg\<close>, and has not changed the world. When step 5 (step 6) completes
  it has spawned one sign (push) command, once each and in sorted order of the file
  names, for the entries that match \<open>*.*nupkg\<close> in the world in which the step
  started. Every name that matches \<open>*.nupkg\<close> matches \<open>*.*nupkg\<close>, so in one world the
  files of step 4 are among those of steps 5 and 6; the converse does not hold.
\<close>

theorem archive_steps_iterate_sorted:
  "(main os a PKGS w = (r, st) \<and> trace st = pre @ ev # post \<and> archive_event ev \<longrightarrow>
      (\<exists>rest. map fst (spawns pre)
            = restore_cmd # build_cmd
                # map (pack_cmd a (script_root os) (truediv (script_root os) ''packages'')) PKGS
                @ rest
            \<and> list_all (\<lambda>c. \<not> is_pack c) rest)
      \<and> list_all succeeded (map snd (take (2 + length PKGS) (spawns pre)))
      \<and> list_all (\<lambda>c. \<not> is_pack c) (map fst (spawns post)))
   \<and> (step4_verify os out st1 = (Return (), st1') \<longrightarrow>
        world st1' = world st1
        \<and> (\<exists>evs. trace st1' = trace st1 @ evs \<and> spawns evs = []
              \<and> opened evs = verify_files os out (world st1)))
   \<and> (sign a \<and> cert_path a = Some cert \<and> cert \<noteq> []
        \<and> step5_sign os a root out st2 = (Return (), st2') \<longrightarrow>
        (\<exists>evs. trace st2' = trace st2 @ evs \<and> opened evs = []
           \<and> map fst (spawns evs) = map (sign_cmd a cert) (sign_files os out (world st2))))
   \<and> (publish a \<and> api_key a = Some key \<and> key \<noteq> []
        \<and> step6_publish os a root out st3 = (Return (), st3') \<longrightarrow>
        (\<exists>evs. trace st3' = trace st3 @ evs \<and> opened evs = []
           \<and> map fst (spawns evs) = map (push_cmd key) (sign_files os out (world st3))))
   \<and> map path_name (verify_files os out w0)
       = sort (filter (\<lambda>n. fnmatch n ''*.nupkg'') (iterdir os out w0))
   \<and> map path_name (sign_files os out w0)
       = sort (filter (\<lambda>n. fnmatch n ''*.*nupkg'') (iterdir os out w0))
   \<and> (distinct (iterdir os out w0) \<longrightarrow>
        distinct (verify_files os out w0) \<and> distinct (sign_files os out w0))
   \<and> set (verify_files os out w0) \<subseteq> set (sign_files os out w0)
   \<and> (fnmatch n ''*.nupkg'' \<longleftrightarrow> (\<exists>b. n = b @ ''.nupkg''))
   \<and> (fnmatch n ''*.*nupkg'' \<longleftrightarrow> (\<exists>b c. n = b @ ''.'' @ c @ ''nupkg''))"
proof -
  have a1: "main os a PKGS w = (r, st) \<and> trace st = pre @ ev # post \<and> archive_event ev \<longrightarrow>
      (\<exists>rest. map fst (spawns pre)
            = restore_cmd # build_cmd
                # map (pack_cmd a (script_root os) (truediv (script_root os) ''packages'')) PKGS
                @ rest
            \<and> list_all (\<lambda>c. \<not> is_pack c) rest)
      \<and> list_all succeeded (map snd (take (2 + length PKGS) (spawns pre)))
      \<and> list_all (\<lambda>c. \<not> is_pack c) (map fst (spawns post))"
  proof (rule impI, elim conjE)
    assume "main os a PKGS w = (r, st)" "trace st = pre @ ev # post" "archive_event ev"
    then show "(\<exists>rest. map fst (spawns pre)
            = restore_cmd # build_cmd
                # map (pack_cmd a (script_root os) (truediv (script_root os) ''packages'')) PKGS
                @ rest
            \<and> list_all (\<lambda>c. \<not> is_pack c) rest)
      \<and> list_all succeeded (map snd (take (2 + length PKGS) (spawns pre)))
      \<and> list_all (\<lambda>c. \<not> is_pack c) (map fst (spawns post))"
      by (rule archive_event_after_packing)
  qed
  have a2: "step4_verify os out st1 = (Return (), st1') \<longrightarrow>
        world st1' = world st1
        \<and> (\<exists>evs. trace st1' = trace st1 @ evs \<and> spawns evs = []
              \<and> opened evs = verify_files os out (world st1))"
    by (rule impI) (rule step4_iterates)
  have a3: "sign a \<and> cert_path a = Some cert \<and> cert \<noteq> []
        \<and> step5_sign os a root out st2 = (Return (), st2') \<longrightarrow>
        (\<exists>evs. trace st2' = trace st2 @ evs \<and> opened evs = []
           \<and> map fst (spawns evs) = map (sign_cmd a cert) (sign_files os out (world st2)))"
    by (rule impI, elim conjE) (rule step5_iterates)
  have a4: "publish a \<and> api_key a = Some key \<and> key \<noteq> []
        \<and> step6_publish os a root out st3 = (Return (), st3') \<longrightarrow>
        (\<exists>evs. trace st3' = trace st3 @ evs \<and> opened evs = []
           \<and> map fst (spawns evs) = map (push_cmd key) (sign_files os out (world st3)))"
    by (rule impI, elim conjE) (rule step6_iterates)
  have a5: "distinct (iterdir os out w0) \<longrightarrow>
        distinct (verify_files os out w0) \<and> distinct (sign_files os out w0)"
    by (simp add: files_distinct)
  from a1 a2 a3 a4 files_names [of os out w0] a5 verify_files_subset [of os out w0]
    fnmatch_nupkg [of n] fnmatch_any_nupkg [of n]
  show ?thesis by (intro conjI)
qed

theorem archive_steps_iterate_sorted_witness:
  "archive_event (trace (snd (main demo_os demo_args [''p/A.csproj''] [])) ! 16)
   \<and> map fst (spawns (take 16 (trace (snd (main demo_os demo_args [''p/A.csproj''] [])))))
       = [restore_cmd, build_cmd,
          pack_cmd demo_args (PurePosixPath ''/r'') (PurePosixPath ''/r/packages'') ''p/A.csproj'']
   \<and> filter is_pack (map fst (spawns (drop 17
         (trace (snd (main demo_os demo_args [''p/A.csproj''] [])))))) = []
   \<and> map path_name (opened (trace (snd (step4_verify demo_os (PurePosixPath ''/r/packages'')
         \<lparr>world = [''A.1.0.0.snupkg'', ''A.1.0.0.nupkg''], trace = [], results = []\<rparr>))))
       = [''A.1.0.0.nupkg'']
   \<and> map fst (spawns (trace (snd (step5_sign demo_os demo_args (PurePosixPath ''/r'')
         (PurePosixPath ''/r/packages'')
         \<lparr>world = [''A.1.0.0.snupkg'', ''A.1.0.0.nupkg''], trace = [], results = []\<rparr>))))
       = map (sign_cmd demo_args ''c.pfx'')
           [make_child (PurePosixPath ''/r/packages'') ''A.1.0.0.nupkg'',
            make_child (PurePosixPath ''/r/packages'') ''A.1.0.0.snupkg'']
   \<and> map fst (spawns (trace (snd (step6_publish demo_os demo_args (PurePosixPath ''/r'')
         (PurePosixPath ''/r/packages'')
         \<lparr>world = [''A.1.0.0.snupkg'', ''A.1.0.0.nupkg''], trace = [], results = []\<rparr>))))
       = map (push_cmd ''k'')
           [make_child (PurePosixPath ''/r/packages'') ''A.1.0.0.nupkg'',
            make_child (PurePosixPath ''/r/packages'') ''A.1.0.0.snupkg'']
   \<and> distinct (iterdir demo_os (PurePosixPath ''/r/packages'') [''A.1.0.0.snupkg'', ''A.1.0.0.nupkg''])
   \<and> distinct (sign_files demo_os (PurePosixPath ''/r/packages'') [''A.1.0.0.snupkg'', ''A.1.0.0.nupkg''])"
proof -
  let ?O = "PurePosixPath ''/r/packages''"
  let ?R = "PurePosixPath ''/r''"
  let ?w = "[''A.1.0.0.snupkg'', ''A.1.0.0.nupkg'']"
  let ?s = "\<lparr>world = ?w, trace = [], results = []\<rparr> :: string list state"
  let ?run = "main demo_os demo_args [''p/A.csproj''] []"
  let ?r4 = "step4_verify demo_os ?O ?s"
  let ?r5 = "step5_sign demo_os demo_args ?R ?O ?s"
  let ?r6 = "step6_publish demo_os demo_args ?R ?O ?s"
  have len: "16 < length (trace (snd ?run))" by (simp add: demo_full_run)
  have h1: "?run = (fst ?run, snd ?run)
      \<and> trace (snd ?run) = take 16 (trace (snd ?run)) @ (trace (snd ?run) ! 16) # drop 17 (trace (snd ?run))
      \<and> archive_event (trace (snd ?run) ! 16)"
    using id_take_nth_drop [OF len] by (simp add: demo_full_run)
  have h4: "?r4 = (Return (), snd ?r4)"
    using demo_archive_steps(1) by (simp add: prod_eq_iff)
  have h5: "sign demo_args \<and> cert_path demo_args = Some ''c.pfx'' \<and> ''c.pfx'' \<noteq> []
      \<and> ?r5 = (Return (), snd ?r5)"
    using demo_archive_steps(2) by (simp add: prod_eq_iff demo_args_def)
  have h6: "publish demo_args \<and> api_key demo_args = Some ''k'' \<and> ''k'' \<noteq> []
      \<and> ?r6 = (Return (), snd ?r6)"
    using demo_archive_steps(3) by (simp add: prod_eq_iff demo_args_def)
  have d: "distinct (iterdir demo_os ?O ?w)" by (simp add: demo_os_def)
  note t = archive_steps_iterate_sorted [where os = demo_os and a = demo_args
      and PKGS = "[''p/A.csproj'']" and w = "[]" and r = "fst ?run" and st = "snd ?run"
      and pre = "take 16 (trace (snd ?run))" and ev = "trace (snd ?run) ! 16"
      and post = "drop 17 (trace (snd ?run))" and out = ?O and root = ?R
      and ?st1.0 = ?s and st1' = "snd ?r4" and ?st2.0 = ?s and st2' = "snd ?r5"
      and ?st3.0 = ?s and st3' = "snd ?r6" and cert = "''c.pfx''" and key = "''k''"
      and ?w0.0 = ?w]
  note t1 = t [THEN conjunct1, rule_format, OF h1]
  note t4 = t [THEN conjunct2, THEN conjunct1, rule_format, OF h4]
  note t5 = t [THEN conjunct2, THEN conjunct2, THEN conjunct1, rule_format, OF h5]
  note t6 = t [THEN conjunct2, THEN conjunct2, THEN conjunct2, THEN conjunct1, rule_format, OF h6]
  note t7 = t [THEN conjunct2, THEN conjunct2, THEN conjunct2, THEN conjunct2, THEN conjunct2,
      THEN conjunct2, THEN conjunct1, rule_format, OF d]
  from t1 have c1': "list_all (\<lambda>c. \<not> is_pack c) (map fst (spawns (drop 17 (trace (snd ?run)))))"
    by (elim conjE)
  from t4 obtain e4 where c4: "trace (snd ?r4) = trace ?s @ e4"
    "opened e4 = verify_files demo_os ?O (world ?s)" by (elim conjE exE)
  from t5 obtain e5 where c5: "trace (snd ?r5) = trace ?s @ e5"
    "map fst (spawns e5) = map (sign_cmd demo_args ''c.pfx'') (sign_files demo_os ?O (world ?s))"
    by (elim conjE exE)
  from t6 obtain e6 where c6: "trace (snd ?r6) = trace ?s @ e6"
    "map fst (spawns e6) = map (push_cmd ''k'') (sign_files demo_os ?O (world ?s))"
    by (elim conjE exE)
  from t7 have c7: "distinct (sign_files demo_os ?O ?w)" by (elim conjE)
  have vf: "verify_files demo_os ?O ?w = [make_child ?O ''A.1.0.0.nupkg'']"
    by (simp add: verify_files_eq demo_os_def less_char_def less_eq_char_def)
  have sf: "sign_files demo_os ?O ?w = [make_child ?O ''A.1.0.0.nupkg'', make_child ?O ''A.1.0.0.snupkg'']"
    by (simp add: sign_files_eq demo_os_def less_char_def less_eq_char_def)
  have a: "version demo_args = ''1.0.0''" by (simp add: demo_args_def)
  have p1: "map fst (spawns (take 16 (trace (snd ?run))))
       = [restore_cmd, build_cmd, pack_cmd demo_args ?R ?O ''p/A.csproj'']"
    by (simp add: demo_full_run restore_cmd_def build_cmd_def pack_cmd_def str_path_def
        truediv_def PurePosixPath_def a)
  from c1' have p2: "filter is_pack (map fst (spawns (drop 17 (trace (snd ?run))))) = []"
    by (simp add: filter_empty_conv list_all_iff)
  from c4 vf have p4: "map path_name (opened (trace (snd ?r4))) = [''A.1.0.0.nupkg'']" by simp
  from c5 sf have p5: "map fst (spawns (trace (snd ?r5)))
       = map (sign_cmd demo_args ''c.pfx'') [make_child ?O ''A.1.0.0.nupkg'', make_child ?O ''A.1.0.0.snupkg'']"
    by simp
  from c6 sf have p6: "map fst (spawns (trace (snd ?r6)))
       = map (push_cmd ''k'') [make_child ?O ''A.1.0.0.nupkg'', make_child ?O ''A.1.0.0.snupkg'']"
    by simp
  from h1 p1 p2 p4 p5 p6 d c7 show ?thesis by (intro conjI) simp_all
qed

text \<open>
  C4 as stated fails: in the run of one project with signing and publishing, step 4
  opens \<open>A.1.0.0.nupkg\<close> only, while a sign command and a push command are spawned for
  the symbols package \<open>A.1.0.0.snupkg\<close> too, which step 4 never inspected.
\<close>

theorem signed_archive_not_verified:
  "fst (main demo_os demo_args [''p/A.csproj''] []) = Return ()
   \<and> opened (trace (snd (main demo_os demo_args [''p/A.csproj''] [])))
       = [make_child (PurePosixPath ''/r/packages'') ''A.1.0.0.nupkg'']
   \<and> map fst (spawns (trace (snd (main demo_os demo_args [''p/A.csproj''] []))))
       = [restore_cmd, build_cmd,
          pack_cmd demo_args (PurePosixPath ''/r'') (PurePosixPath ''/r/packages'') ''p/A.csproj'',
          sign_cmd demo_args ''c.pfx'' (make_child (PurePosixPath ''/r/packages'') ''A.1.0.0.nupkg''),
          sign_cmd demo_args ''c.pfx'' (make_child (PurePosixPath ''/r/packages'') ''A.1.0.0.snupkg''),
          push_cmd ''k'' (make_child (PurePosixPath ''/r/packages'') ''A.1.0.0.nupkg''),
          push_cmd ''k'' (make_child (PurePosixPath ''/r/packages'') ''A.1.0.0.snupkg'')]
   \<and> make_child (PurePosixPath ''/r/packages'') ''A.1.0.0.snupkg''
       \<notin> set (opened (trace (snd (main demo_os demo_args [''p/A.csproj''] []))))"
proof -
  have a: "cert_password demo_args = None" "version demo_args = ''1.0.0''"
    by (simp_all add: demo_args_def)
  show ?thesis
    by (simp add: demo_full_run restore_cmd_def build_cmd_def pack_cmd_def sign_cmd_def
        push_cmd_def str_path_def truediv_def PurePosixPath_def make_child_def a)
qed

section \<open>What the archives contain does not matter\<close>

lemma alike_refl [simp]: "alike s s"
  by (simp add: alike_def)

lemma alike_print [simp]: "alike (print h s) (print h' t) = alike s t"
  by (simp add: alike_def print_def)

lemma alike_print1 [simp]: "alike (print h s) t = alike s t" "alike s (print h t) = alike s t"
  by (simp_all add: alike_def print_def)

lemma simI:
  "(\<And>s t. alike s t \<Longrightarrow> status (fst (f s)) = status (fst (g t)) \<and> alike (snd (f s)) (snd (g t)))
     \<Longrightarrow> sim f g"
  by (simp add: sim_def)

lemma simD:
  "sim f g \<Longrightarrow> alike s t \<Longrightarrow> status (fst (f s)) = status (fst (g t)) \<and> alike (snd (f s)) (snd (g t))"
  by (simp add: sim_def)

lemma sim_bind:
  assumes m: "sim m m'" and f: "\<And>x y. sim (f x) (f' y)"
  shows "sim (bind_res m f) (bind_res m' f')"
proof (rule simI)
  fix s t :: "'a state" assume a: "alike s t"
  obtain r1 s1 where ms: "m s = (r1, s1)" by (cases "m s")
  obtain r2 t1 where mt: "m' t = (r2, t1)" by (cases "m' t")
  from simD [OF m a] ms mt have st: "status r1 = status r2" and al: "alike s1 t1" by simp_all
  show "status (fst (bind_res m f s)) = status (fst (bind_res m' f' t))
      \<and> alike (snd (bind_res m f s)) (snd (bind_res m' f' t))"
  proof (cases r1)
    case (Return x)
    with st obtain y where y: "r2 = Return y" by (cases r2) auto
    from simD [OF f [of x y] al] ms mt Return y show ?thesis by (simp add: bind_res_def)
  next
    case (SysExit n)
    with st have y: "r2 = SysExit n" by (cases r2) auto
    from al ms mt SysExit y show ?thesis by (simp add: bind_res_def)
  next
    case (Raise e)
    with st have y: "r2 = Raise e" by (cases r2) auto
    from al ms mt Raise y show ?thesis by (simp add: bind_res_def)
  qed
qed

lemma sim_run:
  assumes "subprocess_run os' = subprocess_run os"
  shows "sim (run os c cwd chk) (run os' c cwd chk)"
proof (rule simI)
  fix s t :: "'a state" assume a: "alike s t"
  obtain out w' where o: "subprocess_run os c (case c of Str s \<Rightarrow> True | Argv xs \<Rightarrow> False) cwd (world s)
      = (out, w')" by (cases "subprocess_run os c (case c of Str s \<Rightarrow> True | Argv xs \<Rightarrow> False) cwd (world s)")
  with a assms have o': "subprocess_run os' c (case c of Str s \<Rightarrow> True | Argv xs \<Rightarrow> False) cwd (world t)
      = (out, w')" by (simp add: alike_def)
  from a have e: "world t = world s" "results t = results s" "spawns (trace t) = spawns (trace s)"
    "opened (trace t) = opened (trace s)" by (simp_all add: alike_def)
  show "status (fst (run os c cwd chk s)) = status (fst (run os' c cwd chk t))
      \<and> alike (snd (run os c cwd chk s)) (snd (run os' c cwd chk t))"
  proof (cases out)
    case (Inl x)
    with o o' e show ?thesis by (simp add: run_def print_def alike_def Let_def)
  next
    case (Inr b)
    with o o' e show ?thesis by (simp add: run_def print_def alike_def Let_def)
  qed
qed

lemma sim_after:
  assumes "sim f g" and "\<And>s t. alike s t \<Longrightarrow> alike (h s) (h' t)"
  shows "sim (\<lambda>s. f (h s)) (\<lambda>t. g (h' t))"
  using assms by (simp add: sim_def)

lemma sim_spawn_loop:
  assumes "subprocess_run os' = subprocess_run os"
  shows "sim (spawn_loop os root hdr cmd upd xs) (spawn_loop os' root hdr cmd upd xs)"
proof (induction xs)
  case Nil
  show ?case by (rule simI) simp
next
  case (Cons x xs)
  have k: "\<And>r r'. sim (\<lambda>st2. spawn_loop os root hdr cmd upd xs (st2\<lparr>results := upd x (results st2)\<rparr>))
                     (\<lambda>st2. spawn_loop os' root hdr cmd upd xs (st2\<lparr>results := upd x (results st2)\<rparr>))"
    by (rule sim_after [OF Cons.IH]) (simp add: alike_def)
  have b: "sim (bind_res (run os (cmd x) (Some root) True)
                  (\<lambda>r st2. spawn_loop os root hdr cmd upd xs (st2\<lparr>results := upd x (results st2)\<rparr>)))
               (bind_res (run os' (cmd x) (Some root) True)
                  (\<lambda>r st2. spawn_loop os' root hdr cmd upd xs (st2\<lparr>results := upd x (results st2)\<rparr>)))"
    by (rule sim_bind [OF sim_run [OF assms] k])
  have "sim (\<lambda>s. bind_res (run os (cmd x) (Some root) True)
                  (\<lambda>r st2. spawn_loop os root hdr cmd upd xs (st2\<lparr>results := upd x (results st2)\<rparr>))
                  (case hdr x of None \<Rightarrow> s | Some h \<Rightarrow> print h s))
            (\<lambda>t. bind_res (run os' (cmd x) (Some root) True)
                  (\<lambda>r st2. spawn_loop os' root hdr cmd upd xs (st2\<lparr>results := upd x (results st2)\<rparr>))
                  (case hdr x of None \<Rightarrow> t | Some h \<Rightarrow> print h t))"
    by (rule sim_after [OF b]) (simp split: option.splits)
  then show ?case by (simp add: sim_def)
qed

lemma sim_verify_loop:
  assumes z: "\<And>p w e. (zip_namelist os p w = Inl e) = (zip_namelist os' p w = Inl e)"
  shows "sim (verify_loop os ps) (verify_loop os' ps)"
  unfolding sim_def
proof (induction ps)
  case Nil
  show ?case by simp
next
  case (Cons p ps)
  show ?case
  proof (intro allI impI)
    fix s t :: "'a state" assume a: "alike s t"
    then have w: "world t = world s" by (simp add: alike_def)
    show "status (fst (verify_loop os (p # ps) s)) = status (fst (verify_loop os' (p # ps) t))
        \<and> alike (snd (verify_loop os (p # ps) s)) (snd (verify_loop os' (p # ps) t))"
    proof (cases "zip_namelist os p (world s)")
      case (Inl e)
      with z have "zip_namelist os' p (world s) = Inl e" by simp
      with Inl a w show ?thesis by (simp add: Let_def alike_def)
    next
      case (Inr names)
      with z [of p "world s"] obtain names' where n': "zip_namelist os' p (world s) = Inr names'"
        by (cases "zip_namelist os' p (world s)") auto
      let ?s1 = "print (verify_line p names) (s\<lparr>trace := trace s @ [ZipOpen p (Inr names)]\<rparr>)"
      let ?t1 = "print (verify_line p names') (t\<lparr>trace := trace t @ [ZipOpen p (Inr names')]\<rparr>)"
      from a have "alike ?s1 ?t1" by (simp add: alike_def print_def)
      from Cons.IH [rule_format, OF this]
      have "status (fst (verify_loop os ps ?s1)) = status (fst (verify_loop os' ps ?t1))
        \<and> alike (snd (verify_loop os ps ?s1)) (snd (verify_loop os' ps ?t1))" .
      with Inr n' w show ?thesis by (simp add: Let_def)
    qed
  qed
qed

lemma sim_const:
  assumes "\<And>s t. alike s t \<Longrightarrow> alike (h s) (h' t)"
  shows "sim (\<lambda>s. (r, h s)) (\<lambda>t. (r, h' t))"
  using assms by (simp add: sim_def)

lemma prints_only [simp]:
  "spawns (map (\<lambda>r. Print (g r)) rs) = []" "opened (map (\<lambda>r. Print (g r)) rs) = []"
  by (induction rs) simp_all

lemma alike_print_rows: "alike s t \<Longrightarrow> alike (print_rows rs s) (print_rows rs' t)"
  by (simp add: alike_def print_rows_effect)

lemma sim_make_output_dir:
  assumes "mkdir os' = mkdir os"
  shows "sim (make_output_dir os out) (make_output_dir os' out)"
proof (rule simI)
  fix s t :: "'a state" assume a: "alike s t"
  then have e: "world t = world s" by (simp add: alike_def)
  obtain x w' where "mkdir os out (world s) = (x, w')" by (cases "mkdir os out (world s)")
  with a assms e show "status (fst (make_output_dir os out s)) = status (fst (make_output_dir os' out t))
      \<and> alike (snd (make_output_dir os out s)) (snd (make_output_dir os' out t))"
    by (cases x) (simp_all add: make_output_dir_def alike_def)
qed

lemma sim_banner: "sim (\<lambda>st. (Return (), banner a st)) (\<lambda>st. (Return (), banner a st))"
  by (rule sim_const) (simp add: banner_def)

lemma sim_step1:
  assumes "subprocess_run os' = subprocess_run os"
  shows "sim (step1_restore os root) (step1_restore os' root)"
  unfolding step1_restore_def [abs_def]
  by (rule sim_after [OF sim_run [OF assms]]) simp

lemma sim_step2:
  assumes "subprocess_run os' = subprocess_run os"
  shows "sim (step2_build os root) (step2_build os' root)"
  unfolding step2_build_def [abs_def]
  by (rule sim_after [OF sim_run [OF assms]]) simp

lemma sim_step3:
  assumes "subprocess_run os' = subprocess_run os"
  shows "sim (step3_pack os a root out PKGS) (step3_pack os' a root out PKGS)"
  unfolding step3_pack_def [abs_def] pack_loop_spawn_loop
  by (rule sim_after [OF sim_spawn_loop [OF assms]]) (simp add: alike_def print_def)

lemma sim_step4:
  assumes z: "\<And>p w e. (zip_namelist os p w = Inl e) = (zip_namelist os' p w = Inl e)"
    and i: "iterdir os' = iterdir os"
  shows "sim (step4_verify os out) (step4_verify os' out)"
proof (rule simI)
  fix s t :: "'a state" assume a: "alike s t"
  then have e: "world t = world s" by (simp add: alike_def)
  let ?h = "CHR 0x0A # ''[4/5] Verifying packages...''"
  have v: "verify_files os' out (world t) = verify_files os out (world s)"
    by (simp add: verify_files_def glob_def i e)
  have s4: "step4_verify os out s = verify_loop os (verify_files os out (world s)) (print ?h s)"
    by (simp add: step4_verify_def Let_def verify_files_def print_def)
  have t4: "step4_verify os' out t = verify_loop os' (verify_files os' out (world t)) (print ?h t)"
    by (simp add: step4_verify_def Let_def verify_files_def print_def)
  from a have "alike (print ?h s) (print ?h t)" by simp
  from simD [OF sim_verify_loop [OF z] this, of "verify_files os out (world s)"]
  show "status (fst (step4_verify os out s)) = status (fst (step4_verify os' out t))
      \<and> alike (snd (step4_verify os out s)) (snd (step4_verify os' out t))"
    by (simp only: s4 t4 v)
qed

lemma sim_step5:
  assumes r: "subprocess_run os' = subprocess_run os" and i: "iterdir os' = iterdir os"
  shows "sim (step5_sign os a root out) (step5_sign os' a root out)"
proof (rule simI)
  fix s t :: "'a state" assume a: "alike s t"
  then have e: "world t = world s" by (simp add: alike_def)
  have v: "sign_files os' out (world t) = sign_files os out (world s)"
    by (simp add: sign_files_def glob_def i e)
  show "status (fst (step5_sign os a root out s)) = status (fst (step5_sign os' a root out t))
      \<and> alike (snd (step5_sign os a root out s)) (snd (step5_sign os' a root out t))"
  proof (cases "sign a")
    case False
    with a show ?thesis by (simp add: step5_unfold(1))
  next
    case True
    show ?thesis
    proof (cases "falsy (cert_path a)")
      case f: True
      with True a show ?thesis by (simp add: step5_unfold(2))
    next
      case f: False
      then obtain cert where c: "cert_path a = Some cert" "cert \<noteq> []"
        using falsy_cases [of "cert_path a"] by blast
      let ?h = "CHR 0x0A # ''[4.5/5] Signing packages...''"
      from a have "alike (print ?h s) (print ?h t)" by simp
      from simD [OF sim_spawn_loop [OF r] this]
      show ?thesis
        by (simp only: step5_unfold(3) [OF True c] sign_loop_spawn_loop v)
    qed
  qed
qed

lemma sim_step6:
  assumes r: "subprocess_run os' = subprocess_run os" and i: "iterdir os' = iterdir os"
  shows "sim (step6_publish os a root out) (step6_publish os' a root out)"
proof (rule simI)
  fix s t :: "'a state" assume a: "alike s t"
  then have e: "world t = world s" by (simp add: alike_def)
  have v: "sign_files os' out (world t) = sign_files os out (world s)"
    by (simp add: sign_files_def glob_def i e)
  show "status (fst (step6_publish os a root out s)) = status (fst (step6_publish os' a root out t))
      \<and> alike (snd (step6_publish os a root out s)) (snd (step6_publish os' a root out t))"
  proof (cases "publish a")
    case False
    with a show ?thesis by (simp add: step6_unfold(1))
  next
    case True
    show ?thesis
    proof (cases "falsy (api_key a)")
      case f: True
      with True a show ?thesis by (simp add: step6_unfold(2))
    next
      case f: False
      then obtain key where c: "api_key a = Some key" "key \<noteq> []"
        using falsy_cases [of "api_key a"] by blast
      let ?h = "CHR 0x0A # ''[5/5] Publishing to NuGet...''"
      from a have "alike (print ?h s) (print ?h t)" by simp
      from simD [OF sim_spawn_loop [OF r] this]
      show ?thesis
        by (simp only: step6_unfold(3) [OF True c] publish_loop_spawn_loop v)
    qed
  qed
qed

lemma sim_summary: "sim summary summary"
proof (rule simI)
  fix s t :: "'a state" assume a: "alike s t"
  then have "results t = results s" by (simp add: alike_def)
  with a show "status (fst (summary s)) = status (fst (summary t))
      \<and> alike (snd (summary s)) (snd (summary t))"
    by (simp add: summary_def Let_def alike_print_rows print_def [of _ "s\<lparr>trace := _\<rparr>"])
qed

lemma sim_main:
  assumes z: "\<And>p w e. (zip_namelist os p w = Inl e) = (zip_namelist os' p w = Inl e)"
    and r: "subprocess_run os' = subprocess_run os" and i: "iterdir os' = iterdir os"
    and m: "mkdir os' = mkdir os" and sr: "script_root os' = script_root os"
  shows "fst (main os' a PKGS w) = fst (main os a PKGS w)
     \<and> alike (snd (main os a PKGS w)) (snd (main os' a PKGS w))"
proof -
  let ?root = "script_root os"
  let ?out = "truediv (script_root os) ''packages''"
  let ?body = "\<lambda>os. bind_res (make_output_dir os ?out) (\<lambda>u.
         bind_res (\<lambda>st. (Return (), banner a st)) (\<lambda>u.
         bind_res (step1_restore os ?root) (\<lambda>r.
         bind_res (step2_build os ?root) (\<lambda>r.
         bind_res (step3_pack os a ?root ?out PKGS) (\<lambda>u.
         bind_res (step4_verify os ?out) (\<lambda>u.
         bind_res (step5_sign os a ?root ?out) (\<lambda>u.
         bind_res (step6_publish os a ?root ?out) (\<lambda>u.
         summary))))))))"
  have "sim (?body os) (?body os')"
    by (intro sim_bind sim_make_output_dir sim_banner sim_step1 sim_step2 sim_step3 sim_step4
        sim_step5 sim_step6 sim_summary z r i m)
  from simD [OF this alike_refl, of "\<lparr>world = w, trace = [], results = []\<rparr>"]
  show ?thesis by (simp add: main_def Let_def sr)
qed

text \<open>
  C8. An archive that step 4 opens and that has no entry containing \<open>README\<close> only
  adds a warning line: the loop goes on with the next archive, with the world and the
  registry as they were. Nor does what the archives contain change how a run of \<open>main\<close>
  ends or what it does after step 4: with archives of any other content that can be
  opened in the same cases, the run ends with the same status, in the same world, with
  the same registry, after the same commands with the same outcomes and the same
  archives opened.
\<close>

theorem missing_readme_is_only_a_warning:
  "(zip_namelist os p (world st0) = Inr names \<and> \<not> list_ex (contains ''README'') names \<longrightarrow>
      verify_loop os (p # rest) st0
        = verify_loop os rest
            (st0\<lparr>trace := trace st0 @ [ZipOpen p (Inr names),
               Print (''  '' @ path_name p @ '': WARNING: no README ('' @ str_nat (length names)
                      @ '' files)'')]\<rparr>))
   \<and> ((\<forall>p w e. (zip_namelist os p w = Inl e) = (z' p w = Inl e)) \<longrightarrow>
        fst (main (os\<lparr>zip_namelist := z'\<rparr>) a PKGS w) = fst (main os a PKGS w)
        \<and> world (snd (main (os\<lparr>zip_namelist := z'\<rparr>) a PKGS w)) = world (snd (main os a PKGS w))
        \<and> results (snd (main (os\<lparr>zip_namelist := z'\<rparr>) a PKGS w)) = results (snd (main os a PKGS w))
        \<and> spawns (trace (snd (main (os\<lparr>zip_namelist := z'\<rparr>) a PKGS w)))
            = spawns (trace (snd (main os a PKGS w)))
        \<and> opened (trace (snd (main (os\<lparr>zip_namelist := z'\<rparr>) a PKGS w)))
            = opened (trace (snd (main os a PKGS w))))"
proof (rule conjI)
  show "zip_namelist os p (world st0) = Inr names \<and> \<not> list_ex (contains ''README'') names \<longrightarrow>
      verify_loop os (p # rest) st0
        = verify_loop os rest
            (st0\<lparr>trace := trace st0 @ [ZipOpen p (Inr names),
               Print (''  '' @ path_name p @ '': WARNING: no README ('' @ str_nat (length names)
                      @ '' files)'')]\<rparr>)"
    by (simp add: Let_def print_def verify_line_def)
next
  show "(\<forall>p w e. (zip_namelist os p w = Inl e) = (z' p w = Inl e)) \<longrightarrow>
        fst (main (os\<lparr>zip_namelist := z'\<rparr>) a PKGS w) = fst (main os a PKGS w)
        \<and> world (snd (main (os\<lparr>zip_namelist := z'\<rparr>) a PKGS w)) = world (snd (main os a PKGS w))
        \<and> results (snd (main (os\<lparr>zip_namelist := z'\<rparr>) a PKGS w)) = results (snd (main os a PKGS w))
        \<and> spawns (trace (snd (main (os\<lparr>zip_namelist := z'\<rparr>) a PKGS w)))
            = spawns (trace (snd (main os a PKGS w)))
        \<and> opened (trace (snd (main (os\<lparr>zip_namelist := z'\<rparr>) a PKGS w)))
            = opened (trace (snd (main os a PKGS w)))"
  proof (rule impI)
    assume "\<forall>p w e. (zip_namelist os p w = Inl e) = (z' p w = Inl e)"
    then have z: "\<And>p w e. (zip_namelist os p w = Inl e) = (zip_namelist (os\<lparr>zip_namelist := z'\<rparr>) p w = Inl e)"
      by simp
    from sim_main [of os "os\<lparr>zip_namelist := z'\<rparr>" a PKGS w, OF z]
    have "fst (main (os\<lparr>zip_namelist := z'\<rparr>) a PKGS w) = fst (main os a PKGS w)
     \<and> alike (snd (main os a PKGS w)) (snd (main (os\<lparr>zip_namelist := z'\<rparr>) a PKGS w))" by simp
    then show "fst (main (os\<lparr>zip_namelist := z'\<rparr>) a PKGS w) = fst (main os a PKGS w)
        \<and> world (snd (main (os\<lparr>zip_namelist := z'\<rparr>) a PKGS w)) = world (snd (main os a PKGS w))
        \<and> results (snd (main (os\<lparr>zip_namelist := z'\<rparr>) a PKGS w)) = results (snd (main os a PKGS w))
        \<and> spawns (trace (snd (main (os\<lparr>zip_namelist := z'\<rparr>) a PKGS w)))
            = spawns (trace (snd (main os a PKGS w)))
        \<and> opened (trace (snd (main (os\<lparr>zip_namelist := z'\<rparr>) a PKGS w)))
            = opened (trace (snd (main os a PKGS w)))"
      by (simp add: alike_def)
  qed
qed

theorem missing_readme_is_only_a_warning_witness:
  "zip_namelist demo_os (make_child (PurePosixPath ''/r/packages'') ''Bare.1.0.0.nupkg'') []
     = Inr [''lib/x.dll'']
   \<and> \<not> list_ex (contains ''README'') [''lib/x.dll'']
   \<and> verify_loop demo_os [make_child (PurePosixPath ''/r/packages'') ''Bare.1.0.0.nupkg'']
        \<lparr>world = [], trace = [], results = []\<rparr>
      = (Return (),
         \<lparr>world = [],
          trace = [ZipOpen (make_child (PurePosixPath ''/r/packages'') ''Bare.1.0.0.nupkg'')
                     (Inr [''lib/x.dll'']),
                   Print ''  Bare.1.0.0.nupkg: WARNING: no README (1 files)''],
          results = []\<rparr>)
   \<and> fst (main (demo_os\<lparr>zip_namelist := (\<lambda>p w. Inr [])\<rparr>) demo_args [''p/A.csproj''] []) = Return ()
   \<and> results (snd (main (demo_os\<lparr>zip_namelist := (\<lambda>p w. Inr [])\<rparr>) demo_args [''p/A.csproj''] []))
       = [\<lparr>name = ''A'', packed = True, signed = True, published = True\<rparr>]"
proof -
  let ?P = "make_child (PurePosixPath ''/r/packages'') ''Bare.1.0.0.nupkg''"
  let ?S = "\<lparr>world = [], trace = [], results = []\<rparr> :: string list state"
  let ?z = "\<lambda>(p :: ppath) (w :: string list). Inr [] :: pyexn + string list"
  have h1: "zip_namelist demo_os ?P (world ?S) = Inr [''lib/x.dll'']
      \<and> \<not> list_ex (contains ''README'') [''lib/x.dll'']"
    by (simp add: demo_os_def demo_zip_def)
  have h2: "\<forall>p w e. (zip_namelist demo_os p w = Inl e) = (?z p w = Inl e)"
    by (simp add: demo_os_def demo_zip_def)
  note t = missing_readme_is_only_a_warning [where os = demo_os and p = ?P and ?st0.0 = ?S
      and names = "[''lib/x.dll'']" and rest = "[]" and z' = ?z and a = demo_args
      and PKGS = "[''p/A.csproj'']" and w = "[]"]
  from t [THEN conjunct1, THEN mp, OF h1]
  have c1: "verify_loop demo_os [?P] ?S
      = (Return (), \<lparr>world = [], trace = [ZipOpen ?P (Inr [''lib/x.dll'']),
                   Print ''  Bare.1.0.0.nupkg: WARNING: no README (1 files)''], results = []\<rparr>)"
    by (simp add: str_nat.simps)
  from t [THEN conjunct2, THEN mp, OF h2]
  have c2: "fst (main (demo_os\<lparr>zip_namelist := ?z\<rparr>) demo_args [''p/A.csproj''] []) = Return ()"
    and c3: "results (snd (main (demo_os\<lparr>zip_namelist := ?z\<rparr>) demo_args [''p/A.csproj''] []))
       = [\<lparr>name = ''A'', packed = True, signed = True, published = True\<rparr>]"
    by (simp_all add: demo_full_run)
  from h1 c1 c2 c3 show ?thesis by simp
qed

end
